theory Spec2Isabelle
  imports
    Main
    "HOL-Library.Word"
    "HOL-Library.Multiset"
    "HOL-Library.Signed_Division"
    "HOL-Library.Log_Nat"
begin

section \<open>Data model of the temperature logger\<close>

text \<open>
  The embedding follows \<^verbatim>\<open>app/src/temperature-logger.c\<close> and the lock macros of
  \<^verbatim>\<open>app/lock.h\<close>.

  \<^item> \<^verbatim>\<open>temperature_t\<close> is \<^verbatim>\<open>int16_t\<close>: a 16-bit word, read as signed with \<open>sint\<close>.
  \<^item> \<^verbatim>\<open>sys_minutes_t\<close> is declared in \<^verbatim>\<open>app/time.h\<close>, which is not among the sources; the
    code casts differences of it to \<^verbatim>\<open>uint32_t\<close> and prints it with \<^verbatim>\<open>%u\<close>, so it is taken
    as a 32-bit unsigned word.
  \<^item> \<^verbatim>\<open>size_t\<close> indices and lengths are natural numbers; every array access checks the
    index against the extent of the array, so an index never grows past it unnoticed.
  \<^item> \<^verbatim>\<open>CONFIG_TEMPERATURE_LOGGER_BUFFER_SIZE\<close> is a build-time constant that the sources
    do not fix; every function that uses it takes it as its first argument \<open>N\<close>.
  \<^item> A result \<open>None\<close> means that the C function has no defined return at that input: it
    dereferences a null or unmapped pointer, reads or writes an array out of range,
    divides by zero, or does not terminate.
\<close>

datatype error_e = E_SUCCESS | E_ERROR | E_NOBUFS | E_NULL_PTR | E_END_OF_ITER

type_synonym temperature_t = "16 word"
type_synonym sys_minutes_t = "32 word"

record temperature_sample_t =
  temperature :: temperature_t
  uptime :: sys_minutes_t

text \<open>
  \<^verbatim>\<open>struct temperature_list_t\<close> without its mutex: the array \<open>data\<close> (a list whose length
  is the extent of the array) and the field \<^verbatim>\<open>length\<close>, here \<open>len\<close>.
\<close>

record temperature_list_t =
  data :: "temperature_sample_t list"
  len :: nat

text \<open>Pointers to lists are addresses; address 0 is \<^verbatim>\<open>NULL\<close>. The memory maps the
  addresses of the live lists to their contents.\<close>

type_synonym addr = nat
type_synonym memory = "addr \<rightharpoonup> temperature_list_t"

definition NULL :: addr where
  "NULL = 0"

definition list_at :: "memory \<Rightarrow> addr \<Rightarrow> temperature_list_t option" where
  "list_at h p = (if p = NULL then None else h p)"

text \<open>A pointer to a sample is a list address and an index; \<open>None\<close> is the null sample
  pointer.\<close>

type_synonym sample_ptr = "(addr \<times> nat) option"

definition array_read :: "'a list \<Rightarrow> nat \<Rightarrow> 'a option" where
  "array_read xs i = (if i < length xs then Some (xs ! i) else None)"

definition array_write :: "'a list \<Rightarrow> nat \<Rightarrow> 'a \<Rightarrow> 'a list option" where
  "array_write xs i v = (if i < length xs then Some (xs[i := v]) else None)"

definition sample_at :: "memory \<Rightarrow> sample_ptr \<Rightarrow> temperature_sample_t option" where
  "sample_at h q =
     (case q of
        None \<Rightarrow> None
      | Some (p, i) \<Rightarrow>
          (case list_at h p of None \<Rightarrow> None | Some l \<Rightarrow> array_read (data l) i))"

section \<open>Bounded sample list\<close>

definition zero_sample :: temperature_sample_t where
  "zero_sample = \<lparr>temperature = 0, uptime = 0\<rparr>"

text \<open>\<^verbatim>\<open>reset_temperature_list\<close>: the \<^verbatim>\<open>memset\<close> over the region before the mutex zeroes the
  whole array and the length. Taking and releasing the list's own mutex does not touch that region.\<close>

definition reset_temperature_list :: "memory \<Rightarrow> addr \<Rightarrow> (error_e \<times> memory) option" where
  "reset_temperature_list h t =
     (if t = NULL then Some (E_NULL_PTR, h)
      else case list_at h t of
        None \<Rightarrow> None
      | Some l \<Rightarrow>
          Some (E_SUCCESS, h(t \<mapsto> \<lparr>data = replicate (length (data l)) zero_sample, len = 0\<rparr>)))"

text \<open>\<^verbatim>\<open>append_temperature_sample\<close>.\<close>

definition append_temperature_sample ::
  "nat \<Rightarrow> memory \<Rightarrow> addr \<Rightarrow> temperature_sample_t \<Rightarrow> (error_e \<times> memory) option" where
  "append_temperature_sample N h list sample =
     (if list = NULL then Some (E_NULL_PTR, h)
      else case list_at h list of
        None \<Rightarrow> None
      | Some l \<Rightarrow>
          if len l = N then Some (E_NOBUFS, h)
          else (case array_write (data l) (len l) sample of
                  None \<Rightarrow> None
                | Some d \<Rightarrow> Some (E_SUCCESS, h(list \<mapsto> l\<lparr>data := d, len := len l + 1\<rparr>))))"

section \<open>Persistent store\<close>

text \<open>
  The NVS file system is Zephyr's and not part of the repository. The model takes from
  the environment what the two calls of \<^verbatim>\<open>load_temperature_list\<close> return: the value of
  \<^verbatim>\<open>nvs_read\<close> together with the contents it leaves in the region of the list before the
  mutex, and the value of \<^verbatim>\<open>nvs_write\<close>. The store maps an id to the region written
  under it; a write that returns a negative value leaves the store as it was.
  \<open>region_size\<close> is \<^verbatim>\<open>offsetof(struct temperature_list_t, lock)\<close>.
\<close>

definition ENOENT :: int where
  "ENOENT = 2"

definition NVS_KEY_TEMPERATURE_DATA :: nat where
  "NVS_KEY_TEMPERATURE_DATA = 2"

type_synonym nvs_fs = "nat \<rightharpoonup> temperature_list_t"

record nvs_calls =
  read_result :: int
  read_buffer :: temperature_list_t
  write_result :: int

definition nvs_write :: "nvs_fs \<Rightarrow> nat \<Rightarrow> temperature_list_t \<Rightarrow> int \<Rightarrow> nvs_fs" where
  "nvs_write fs key region rc = (if rc < 0 then fs else fs(key \<mapsto> region))"

text \<open>\<^verbatim>\<open>load_temperature_list\<close>. The value of \<^verbatim>\<open>nvs_write\<close> is not looked at.\<close>

definition load_temperature_list ::
  "nat \<Rightarrow> nvs_calls \<Rightarrow> nvs_fs \<Rightarrow> memory \<Rightarrow> addr \<Rightarrow> (error_e \<times> memory \<times> nvs_fs) option" where
  "load_temperature_list region_size env fs h t =
     (if t = NULL then Some (E_NULL_PTR, h, fs)
      else
        case list_at h t of
          None \<Rightarrow> None
        | Some l \<Rightarrow>
            let bytes_read = read_result env;
                h = h(t \<mapsto> read_buffer env)
            in
              if bytes_read = - ENOENT
              then
               (case reset_temperature_list h t of
                  None \<Rightarrow> None
                | Some (e, h') \<Rightarrow>
                   (case list_at h' t of
                      None \<Rightarrow> None
                    | Some l' \<Rightarrow>
                        Some (E_SUCCESS, h',
                              nvs_write fs NVS_KEY_TEMPERATURE_DATA l' (write_result env))))
              else if bytes_read \<noteq> int region_size
              then Some (E_ERROR, h, fs)
              else Some (E_SUCCESS, h, fs))"

text \<open>
  \<^verbatim>\<open>store_temperature_list\<close>. It makes the same call of \<^verbatim>\<open>nvs_write\<close> and looks at its
  value: anything but the size of the region or zero is \<open>E_ERROR\<close>.
\<close>

definition store_temperature_list ::
  "nat \<Rightarrow> nvs_calls \<Rightarrow> nvs_fs \<Rightarrow> memory \<Rightarrow> addr \<Rightarrow> (error_e \<times> nvs_fs) option" where
  "store_temperature_list region_size env fs h t =
     (if t = NULL then Some (E_NULL_PTR, fs)
      else
        case list_at h t of
          None \<Rightarrow> None
        | Some l \<Rightarrow>
            let bytes_written = write_result env;
                err = (if bytes_written = int region_size \<or> bytes_written = 0
                       then E_SUCCESS else E_ERROR)
            in Some (err, nvs_write fs NVS_KEY_TEMPERATURE_DATA l bytes_written))"

text \<open>A list after \<^verbatim>\<open>reset_temperature_list\<close>, over an array of \<open>n\<close> entries.\<close>

definition empty_list :: "nat \<Rightarrow> temperature_list_t" where
  "empty_list n = \<lparr>data = replicate n zero_sample, len = 0\<rparr>"

section \<open>Ordered multi-lock\<close>

text \<open>
  \<^verbatim>\<open>TRIPLE_LOCK\<close> and \<^verbatim>\<open>TRIPLE_UNLOCK\<close> sort a three-element array of mutex addresses with
  two nested \<^verbatim>\<open>for\<close> loops and then call \<^verbatim>\<open>k_mutex_lock\<close>, respectively \<^verbatim>\<open>k_mutex_unlock\<close>, on
  its entries. The model returns the sequence of mutexes in the order of the calls.
\<close>

definition bubble_swap :: "nat list \<Rightarrow> nat \<Rightarrow> nat list" where
  "bubble_swap locks j =
     (if locks ! j > locks ! (j + 1)
      then locks[j := locks ! (j + 1), j + 1 := locks ! j]
      else locks)"

definition bubble_inner :: "nat list \<Rightarrow> nat \<Rightarrow> nat list" where
  "bubble_inner locks i = foldl bubble_swap locks [0 ..< 2 - i]"

definition bubble_sort3 :: "nat list \<Rightarrow> nat list" where
  "bubble_sort3 locks = foldl bubble_inner locks [0 ..< 2]"

definition TRIPLE_LOCK :: "addr \<Rightarrow> addr \<Rightarrow> addr \<Rightarrow> addr list" where
  "TRIPLE_LOCK lock1 lock2 lock3 =
     (let locks = bubble_sort3 [lock1, lock2, lock3]
      in [locks ! 0, locks ! 1, locks ! 2])"

definition TRIPLE_UNLOCK :: "addr \<Rightarrow> addr \<Rightarrow> addr \<Rightarrow> addr list" where
  "TRIPLE_UNLOCK lock1 lock2 lock3 =
     (let locks = bubble_sort3 [lock1, lock2, lock3]
      in [locks ! 2, locks ! 1, locks ! 0])"

section \<open>Interpolation\<close>

text \<open>
  \<^verbatim>\<open>interpolate\<close> computes in \<^verbatim>\<open>float\<close>. A binary32 value is modelled exactly, as a pair
  \<open>(m, e)\<close> that stands for \<open>m * 2 ^ e\<close>; every operation computes the exact rational
  result and rounds it to a 24-bit significand, to nearest with ties to even
  (\<open>f32_round p q\<close> rounds the fraction \<open>p / q\<close>, \<open>0 < q\<close>). The exponent is unbounded:
  the operands of \<^verbatim>\<open>interpolate\<close> are integers below \<open>2 ^ 32\<close> in magnitude, so no
  intermediate result leaves the range of the normal binary32 numbers.
\<close>

type_synonym f32 = "int \<times> int"

definition f32_round :: "int \<Rightarrow> int \<Rightarrow> f32" where
  "f32_round p q =
     (if p = 0 then (0, 0)
      else
        let a = \<bar>p\<bar>;
            d = bitlen a - bitlen q;
            e = (if q * 2 ^ nat d \<le> a * 2 ^ nat (- d) then d else d - 1);
            s = 23 - e;
            num = a * 2 ^ nat s;
            den = q * 2 ^ nat (- s);
            n = num div den;
            r = num mod den;
            n' = (if 2 * r > den \<or> (2 * r = den \<and> odd n) then n + 1 else n)
        in (sgn p * n', - s))"

definition f32_of_int :: "int \<Rightarrow> f32" where
  "f32_of_int i = f32_round i 1"

definition f32_mul :: "f32 \<Rightarrow> f32 \<Rightarrow> f32" where
  "f32_mul x y =
     (let m = fst x * fst y; e = snd x + snd y
      in f32_round (m * 2 ^ nat e) (2 ^ nat (- e)))"

text \<open>Division; the divisor is not zero where \<^verbatim>\<open>interpolate\<close> divides.\<close>

definition f32_div :: "f32 \<Rightarrow> f32 \<Rightarrow> f32" where
  "f32_div x y =
     (let e = snd x - snd y
      in f32_round (fst x * sgn (fst y) * 2 ^ nat e) (\<bar>fst y\<bar> * 2 ^ nat (- e)))"

text \<open>Conversion of a \<^verbatim>\<open>float\<close> to an integer truncates towards zero.\<close>

definition f32_trunc :: "f32 \<Rightarrow> int" where
  "f32_trunc x =
     (if snd x \<ge> 0 then fst x * 2 ^ nat (snd x)
      else sgn (fst x) * (\<bar>fst x\<bar> div 2 ^ nat (- snd x)))"

text \<open>
  The cast to \<^verbatim>\<open>int16_t\<close> of a value outside the range of \<^verbatim>\<open>int16_t\<close> is not defined by C;
  the model reduces the truncated value modulo \<open>2 ^ 16\<close>, as the narrowing of a wider
  integer does.
\<close>

definition f32_to_int16 :: "f32 \<Rightarrow> 16 word" where
  "f32_to_int16 x = word_of_int (f32_trunc x)"

definition interpolate ::
  "temperature_sample_t \<Rightarrow> temperature_sample_t \<Rightarrow> sys_minutes_t \<Rightarrow> temperature_sample_t" where
  "interpolate t1 t2 up =
     (if uptime t1 = uptime t2
      then \<lparr>temperature = word_of_int ((sint (temperature t1) + sint (temperature t2)) sdiv 2),
            uptime = up\<rparr>
      else
        let earlier = (if uptime t1 < uptime t2 then t1 else t2);
            later = (if uptime t1 < uptime t2 then t2 else t1);
            d_temp = sint (temperature t2) - sint (temperature t1);
            d_uptime = uptime later - uptime earlier;
            d_uptime_to_result = up - uptime earlier;
            d_temp_to_result =
              f32_to_int16
                (f32_div (f32_mul (f32_of_int d_temp) (f32_of_int (uint d_uptime_to_result)))
                         (f32_of_int (uint d_uptime)))
        in \<lparr>temperature = word_of_int (sint (temperature earlier) + sint d_temp_to_result),
            uptime = up\<rparr>)"

section \<open>Chronological merge iterator\<close>

record merge_iterator_t =
  src1 :: addr
  src2 :: addr
  current_list :: addr
  current_index :: nat
  next_src1_index :: nat
  next_src2_index :: nat

text \<open>\<^verbatim>\<open>init_merge_iterator\<close> writes into the iterator \<open>m\<close> it is given; the fields it does
  not assign keep their earlier contents.\<close>

definition init_merge_iterator ::
  "memory \<Rightarrow> merge_iterator_t \<Rightarrow> addr \<Rightarrow> addr \<Rightarrow> merge_iterator_t option" where
  "init_merge_iterator h m s1 s2 =
     (let m = m\<lparr>src1 := s1, src2 := s2, current_index := 0\<rparr> in
      case list_at h s1 of
        None \<Rightarrow> None
      | Some l1 \<Rightarrow>
     (case list_at h s2 of
        None \<Rightarrow> None
      | Some l2 \<Rightarrow>
          if len l1 = 0 \<and> len l2 = 0
          then Some (m\<lparr>current_list := NULL\<rparr>)
          else if len l1 = 0
          then Some (m\<lparr>current_list := s2, next_src1_index := 0, next_src2_index := 1\<rparr>)
          else if len l2 = 0
          then Some (m\<lparr>current_list := s1, next_src1_index := 1, next_src2_index := 0\<rparr>)
          else
           (case array_read (data l1) 0 of
              None \<Rightarrow> None
            | Some a \<Rightarrow>
           (case array_read (data l2) 0 of
              None \<Rightarrow> None
            | Some b \<Rightarrow>
                if uptime a < uptime b
                then Some (m\<lparr>current_list := s1, next_src1_index := 1, next_src2_index := 0\<rparr>)
                else Some (m\<lparr>current_list := s2, next_src1_index := 0,
                             next_src2_index := 1\<rparr>)))))"

text \<open>\<^verbatim>\<open>merge_iterate\<close> returns the error code, the new value of the caller's sample
  pointer \<^verbatim>\<open>*sample\<close> (unchanged at the end of the iteration) and the new iterator.\<close>

definition merge_iterate ::
  "memory \<Rightarrow> merge_iterator_t \<Rightarrow> sample_ptr \<Rightarrow> (error_e \<times> sample_ptr \<times> merge_iterator_t) option" where
  "merge_iterate h m sample =
     (if current_list m = NULL then Some (E_END_OF_ITER, sample, m)
      else
        let sample = Some (current_list m, current_index m) in
        case list_at h (src1 m) of
          None \<Rightarrow> None
        | Some l1 \<Rightarrow>
       (case list_at h (src2 m) of
          None \<Rightarrow> None
        | Some l2 \<Rightarrow>
            let at_src1_end = (next_src1_index m = len l1);
                at_src2_end = (next_src2_index m = len l2)
            in
              if at_src1_end \<and> at_src2_end
              then Some (E_SUCCESS, sample, m\<lparr>current_list := NULL\<rparr>)
              else if at_src1_end
              then Some (E_SUCCESS, sample,
                         m\<lparr>current_list := src2 m, current_index := next_src2_index m,
                           next_src2_index := next_src2_index m + 1\<rparr>)
              else if at_src2_end
              then Some (E_SUCCESS, sample,
                         m\<lparr>current_list := src1 m, current_index := next_src1_index m,
                           next_src1_index := next_src1_index m + 1\<rparr>)
              else
               (case array_read (data l1) (next_src1_index m) of
                  None \<Rightarrow> None
                | Some a \<Rightarrow>
               (case array_read (data l2) (next_src2_index m) of
                  None \<Rightarrow> None
                | Some b \<Rightarrow>
                    if uptime a < uptime b
                    then Some (E_SUCCESS, sample,
                               m\<lparr>current_list := src1 m, current_index := next_src1_index m,
                                 next_src1_index := next_src1_index m + 1\<rparr>)
                    else Some (E_SUCCESS, sample,
                               m\<lparr>current_list := src2 m, current_index := next_src2_index m,
                                 next_src2_index := next_src2_index m + 1\<rparr>)))))"

section \<open>Compaction\<close>

text \<open>The iterator of a merge function is a local variable without initialiser;
  \<^verbatim>\<open>init_merge_iterator\<close> is called on it before any field is read.\<close>

definition uninit_iterator :: merge_iterator_t where
  "uninit_iterator =
     \<lparr>src1 = NULL, src2 = NULL, current_list = NULL, current_index = 0,
      next_src1_index = 0, next_src2_index = 0\<rparr>"

text \<open>\<^verbatim>\<open>memmove(dest->data, merged, sizeof(struct temperature_sample_t) * n)\<close> followed by
  \<^verbatim>\<open>dest->length = n\<close>, where \<open>merged\<close> holds the \<open>n\<close> samples written so far.\<close>

definition copy_to_dest ::
  "memory \<Rightarrow> addr \<Rightarrow> temperature_sample_t list \<Rightarrow> memory option" where
  "copy_to_dest h dest merged =
     (case list_at h dest of
        None \<Rightarrow> None
      | Some d \<Rightarrow>
          if length merged \<le> length (data d)
          then Some (h(dest \<mapsto> d\<lparr>data := merged @ drop (length merged) (data d),
                                 len := length merged\<rparr>))
          else None)"

text \<open>
  The \<^verbatim>\<open>while (true)\<close> loop of \<^verbatim>\<open>merge_without_decimation\<close>. The local array \<^verbatim>\<open>merged\<close> has
  \<open>N\<close> entries; the list \<open>merged\<close> holds those written so far, and \<^verbatim>\<open>index\<close> is its length.
\<close>

partial_function (option) merge_without_decimation_loop ::
  "nat \<Rightarrow> memory \<Rightarrow> addr \<Rightarrow> merge_iterator_t \<Rightarrow> sample_ptr \<Rightarrow> temperature_sample_t list
     \<Rightarrow> (error_e \<times> memory) option" where
  "merge_without_decimation_loop N h dest iterator sample merged =
     (case merge_iterate h iterator sample of
        None \<Rightarrow> None
      | Some (err, sample', iterator') \<Rightarrow>
          if err = E_END_OF_ITER
          then (case copy_to_dest h dest merged of
                  None \<Rightarrow> None
                | Some h' \<Rightarrow> Some (E_SUCCESS, h'))
          else if err \<noteq> E_SUCCESS
          then Some (E_ERROR, h)
          else
           (case sample_at h sample' of
              None \<Rightarrow> None
            | Some s \<Rightarrow>
                if length merged < N
                then merge_without_decimation_loop N h dest iterator' sample' (merged @ [s])
                else None))"

definition merge_without_decimation ::
  "nat \<Rightarrow> memory \<Rightarrow> addr \<Rightarrow> addr \<Rightarrow> addr \<Rightarrow> (error_e \<times> memory) option" where
  "merge_without_decimation N h s1 s2 dest =
     (if s1 = NULL \<or> s2 = NULL \<or> dest = NULL then Some (E_NULL_PTR, h)
      else case init_merge_iterator h uninit_iterator s1 s2 of
        None \<Rightarrow> None
      | Some iterator \<Rightarrow> merge_without_decimation_loop N h dest iterator None [])"

text \<open>
  The \<^verbatim>\<open>while (merge_index < CONFIG_TEMPERATURE_LOGGER_BUFFER_SIZE)\<close> loop of
  \<^verbatim>\<open>merge_with_decimation\<close>; \<^verbatim>\<open>merge_index\<close> is the length of \<open>merged\<close>.
\<close>

partial_function (option) merge_with_decimation_loop ::
  "nat \<Rightarrow> memory \<Rightarrow> addr \<Rightarrow> sys_minutes_t \<Rightarrow> sys_minutes_t \<Rightarrow> merge_iterator_t
     \<Rightarrow> sample_ptr \<Rightarrow> sample_ptr \<Rightarrow> temperature_sample_t list \<Rightarrow> sys_minutes_t
     \<Rightarrow> (error_e \<times> memory) option" where
  "merge_with_decimation_loop N h dest sample_base_period long_periods_needed
       iterator prev current merged merge_uptime =
     (if length merged < N
      then
       (case sample_at h prev of
          None \<Rightarrow> None
        | Some p \<Rightarrow>
            if merge_uptime \<ge> uptime p
            then
             (case sample_at h current of
                None \<Rightarrow> None
              | Some c \<Rightarrow>
                  if merge_uptime \<le> uptime c
                  then
                    let merged' = merged @ [interpolate p c merge_uptime];
                        merge_index = length merged'
                    in merge_with_decimation_loop N h dest sample_base_period long_periods_needed
                         iterator prev current merged'
                         (merge_uptime + (sample_base_period
                            + (if merge_index \<le> unat long_periods_needed then 1 else 0)))
                  else
                    (case merge_iterate h iterator current of
                       None \<Rightarrow> None
                     | Some (err, current', iterator') \<Rightarrow>
                         if err \<noteq> E_SUCCESS then Some (E_ERROR, h)
                         else merge_with_decimation_loop N h dest sample_base_period
                                long_periods_needed iterator' current current' merged merge_uptime))
            else
              (case merge_iterate h iterator current of
                 None \<Rightarrow> None
               | Some (err, current', iterator') \<Rightarrow>
                   if err \<noteq> E_SUCCESS then Some (E_ERROR, h)
                   else merge_with_decimation_loop N h dest sample_base_period
                          long_periods_needed iterator' current current' merged merge_uptime))
      else
       (case copy_to_dest h dest merged of
          None \<Rightarrow> None
        | Some h' \<Rightarrow> Some (E_SUCCESS, h')))"

definition merge_with_decimation ::
  "nat \<Rightarrow> memory \<Rightarrow> addr \<Rightarrow> addr \<Rightarrow> addr \<Rightarrow> (error_e \<times> memory) option" where
  "merge_with_decimation N h s1 s2 dest =
     (if s1 = NULL \<or> s2 = NULL \<or> dest = NULL then Some (E_NULL_PTR, h)
      else
        case list_at h s1 of
          None \<Rightarrow> None
        | Some l1 \<Rightarrow>
       (case list_at h s2 of
          None \<Rightarrow> None
        | Some l2 \<Rightarrow>
       (case array_read (data l1) 0 of
          None \<Rightarrow> None
        | Some a0 \<Rightarrow>
       (case array_read (data l2) 0 of
          None \<Rightarrow> None
        | Some b0 \<Rightarrow>
        if len l1 = 0 \<or> len l2 = 0 then None
        else
       (case array_read (data l1) (len l1 - 1) of
          None \<Rightarrow> None
        | Some a1 \<Rightarrow>
       (case array_read (data l2) (len l2 - 1) of
          None \<Rightarrow> None
        | Some b1 \<Rightarrow>
          let start_uptime = min (uptime a0) (uptime b0);
              end_uptime = max (uptime a1) (uptime b1);
              merge_duration = end_uptime - start_uptime;
              divisor = (of_nat N - 1 :: 32 word)
          in
            if divisor = 0 then None
            else
              let sample_base_period = merge_duration div divisor;
                  long_periods_needed = merge_duration mod divisor
              in
               (case init_merge_iterator h uninit_iterator s1 s2 of
                  None \<Rightarrow> None
                | Some it0 \<Rightarrow>
               (case merge_iterate h it0 None of
                  None \<Rightarrow> None
                | Some (e1, prev, it1) \<Rightarrow>
               (case merge_iterate h it1 None of
                  None \<Rightarrow> None
                | Some (e2, current, it2) \<Rightarrow>
                    merge_with_decimation_loop N h dest sample_base_period long_periods_needed
                      it2 prev current [] start_uptime)))))))))"

text \<open>
  \<^verbatim>\<open>merge_temperature_lists\<close>. The \<^verbatim>\<open>TRIPLE_LOCK\<close> before the dispatch and the
  \<^verbatim>\<open>TRIPLE_UNLOCK\<close> after it take and release the three mutexes, which lie outside the
  array and the length of a list; their order is the subject of the lock section.
\<close>

definition merge_temperature_lists ::
  "nat \<Rightarrow> memory \<Rightarrow> addr \<Rightarrow> addr \<Rightarrow> addr \<Rightarrow> (error_e \<times> memory) option" where
  "merge_temperature_lists N h s1 s2 dest =
     (if s1 = NULL \<or> s2 = NULL \<or> dest = NULL then Some (E_NULL_PTR, h)
      else
        case list_at h s1 of
          None \<Rightarrow> None
        | Some l1 \<Rightarrow>
       (case list_at h s2 of
          None \<Rightarrow> None
        | Some l2 \<Rightarrow>
            if len l1 + len l2 \<le> N
            then merge_without_decimation N h s1 s2 dest
            else merge_with_decimation N h s1 s2 dest))"

section \<open>Abstractions used in the proofs\<close>

text \<open>The valid entries of a list: \<^verbatim>\<open>data[0 .. length)\<close>.\<close>

definition samples :: "temperature_list_t \<Rightarrow> temperature_sample_t list" where
  "samples l = take (len l) (data l)"

text \<open>The sequence that the iterator yields from two sequences of samples: the one
  with the smaller next timestamp goes first, the second one on a tie.\<close>

fun chrono_merge ::
  "temperature_sample_t list \<Rightarrow> temperature_sample_t list \<Rightarrow> temperature_sample_t list" where
  "chrono_merge [] ys = ys"
| "chrono_merge (x # xs) [] = x # xs"
| "chrono_merge (x # xs) (y # ys) =
     (if uptime x < uptime y then x # chrono_merge xs (y # ys)
      else y # chrono_merge (x # xs) ys)"

text \<open>\<open>iter_yields h m zs\<close>: the iterator \<open>m\<close> is in a state from which successive calls
  of \<^verbatim>\<open>merge_iterate\<close> return exactly the samples \<open>zs\<close>.\<close>

definition iter_yields ::
  "memory \<Rightarrow> merge_iterator_t \<Rightarrow> temperature_sample_t list \<Rightarrow> bool" where
  "iter_yields h m zs =
     (case zs of
        [] \<Rightarrow> current_list m = NULL
      | z # rest \<Rightarrow>
          current_list m \<noteq> NULL
          \<and> sample_at h (Some (current_list m, current_index m)) = Some z
          \<and> (\<exists>l1 l2. list_at h (src1 m) = Some l1 \<and> list_at h (src2 m) = Some l2
                \<and> len l1 \<le> length (data l1) \<and> len l2 \<le> length (data l2)
                \<and> next_src1_index m \<le> len l1 \<and> next_src2_index m \<le> len l2
                \<and> rest = chrono_merge (drop (next_src1_index m) (samples l1))
                                        (drop (next_src2_index m) (samples l2))))"

text \<open>The binary32 value that is the integer \<open>g\<close>, for \<open>\<bar>g\<bar> < 2 ^ 24\<close>.\<close>

definition f32_exact :: "int \<Rightarrow> f32" where
  "f32_exact g = (if g = 0 then (0, 0) else (g * 2 ^ nat (24 - bitlen \<bar>g\<bar>), bitlen \<bar>g\<bar> - 24))"

text \<open>The timestamp that \<^verbatim>\<open>merge_uptime\<close> holds when \<^verbatim>\<open>merge_index\<close> is \<open>i\<close>.\<close>

definition target_uptime ::
  "sys_minutes_t \<Rightarrow> sys_minutes_t \<Rightarrow> sys_minutes_t \<Rightarrow> nat \<Rightarrow> sys_minutes_t" where
  "target_uptime start bp lp i = start + of_nat i * bp + of_nat (min i (unat lp))"

section \<open>Example inputs\<close>

text \<open>Lists over arrays of three entries (\<open>N = 3\<close>), at the addresses 1 to 4; the
  first two are the lists of the overlap test of the repository.\<close>

definition example_src1 :: temperature_list_t where
  "example_src1 =
     \<lparr>data = [\<lparr>temperature = 160, uptime = 10\<rparr>, \<lparr>temperature = 800, uptime = 50\<rparr>,
              zero_sample],
      len = 2\<rparr>"

definition example_src2 :: temperature_list_t where
  "example_src2 =
     \<lparr>data = [\<lparr>temperature = 320, uptime = 20\<rparr>, \<lparr>temperature = 640, uptime = 30\<rparr>,
              zero_sample],
      len = 2\<rparr>"

definition example_short :: temperature_list_t where
  "example_short =
     \<lparr>data = [\<lparr>temperature = 320, uptime = 20\<rparr>, zero_sample, zero_sample], len = 1\<rparr>"

definition example_dest :: temperature_list_t where
  "example_dest = \<lparr>data = [zero_sample, zero_sample, zero_sample], len = 0\<rparr>"

definition example_memory :: memory where
  "example_memory =
     [1 \<mapsto> example_src1, 2 \<mapsto> example_src2, 3 \<mapsto> example_dest, 4 \<mapsto> example_short]"




section \<open>Facts about the example inputs\<close>

lemmas example_defs = example_memory_def example_src1_def example_src2_def example_dest_def
  example_short_def NULL_def list_at_def samples_def

lemma example_pointers:
  "(1::nat) \<noteq> NULL" "(2::nat) \<noteq> NULL" "(3::nat) \<noteq> NULL" "(4::nat) \<noteq> NULL"
  by (simp_all add: NULL_def)

lemma example_lists:
  "list_at example_memory 1 = Some example_src1"
  "list_at example_memory 2 = Some example_src2"
  "list_at example_memory 3 = Some example_dest"
  "list_at example_memory 4 = Some example_short"
  by (simp_all add: example_memory_def list_at_def NULL_def)

lemma example_extents:
  "length (data example_src1) = 3" "length (data example_src2) = 3"
  "length (data example_dest) = 3" "length (data example_short) = 3"
  by (simp_all add: example_src1_def example_src2_def example_dest_def example_short_def)

lemma example_lengths:
  "len example_src1 \<le> 3" "len example_src2 \<le> 3" "len example_short \<le> 3"
  "3 < len example_src1 + len example_src2" "len example_src1 + len example_short \<le> 3"
  by (simp_all add: example_src1_def example_src2_def example_short_def)

lemma example_sorted:
  "sorted (map uptime (samples example_src1))" "sorted (map uptime (samples example_src2))"
  "sorted (map uptime (samples example_short))"
  by (simp_all add: example_src1_def example_src2_def example_short_def samples_def)

lemma example_size: "(2::nat) \<le> 3" "(3::nat) < 2 ^ 32"
  by simp_all

section \<open>Properties of the bounded list\<close>

text \<open>
  C6. Appending to a list whose length is \<open>N\<close> returns \<open>E_NOBUFS\<close> and leaves the memory
  as it was; appending to a list whose length is below \<open>N\<close> (the array having \<open>N\<close> entries)
  returns \<open>E_SUCCESS\<close>, stores the sample at index \<open>len\<close>, increases \<open>len\<close> by one and keeps
  all earlier entries.
\<close>

theorem append_full_or_room:
  assumes "list \<noteq> NULL" and "list_at h list = Some l" and "length (data l) = N"
  shows "(len l = N \<longrightarrow> append_temperature_sample N h list s = Some (E_NOBUFS, h))
       \<and> (len l < N \<longrightarrow>
            (\<exists>l'. append_temperature_sample N h list s = Some (E_SUCCESS, h(list \<mapsto> l'))
                \<and> len l' = len l + 1
                \<and> length (data l') = N
                \<and> data l' ! len l = s
                \<and> (\<forall>i < N. i \<noteq> len l \<longrightarrow> data l' ! i = data l ! i)))"
  using assms
  by (auto simp: append_temperature_sample_def array_write_def)

theorem append_full_or_room_witness:
  "append_temperature_sample 2 [1 \<mapsto> \<lparr>data = [zero_sample, zero_sample], len = 2\<rparr>] 1
       \<lparr>temperature = 5, uptime = 7\<rparr>
     = Some (E_NOBUFS, [1 \<mapsto> \<lparr>data = [zero_sample, zero_sample], len = 2\<rparr>])
   \<and> (\<exists>l'. append_temperature_sample 2 [1 \<mapsto> \<lparr>data = [zero_sample, zero_sample], len = 1\<rparr>] 1
             \<lparr>temperature = 5, uptime = 7\<rparr>
           = Some (E_SUCCESS, [1 \<mapsto> l'])
         \<and> len l' = 2 \<and> data l' ! 1 = \<lparr>temperature = 5, uptime = 7\<rparr>)"
  using
    append_full_or_room [of 1 "[1 \<mapsto> \<lparr>data = [zero_sample, zero_sample], len = 2\<rparr>]"
      "\<lparr>data = [zero_sample, zero_sample], len = 2\<rparr>" 2 "\<lparr>temperature = 5, uptime = 7\<rparr>"]
    append_full_or_room [of 1 "[1 \<mapsto> \<lparr>data = [zero_sample, zero_sample], len = 1\<rparr>]"
      "\<lparr>data = [zero_sample, zero_sample], len = 1\<rparr>" 2 "\<lparr>temperature = 5, uptime = 7\<rparr>"]
  by (auto simp: NULL_def list_at_def)

section \<open>Loading from the persistent store\<close>

text \<open>
  The result of \<^verbatim>\<open>load_temperature_list\<close> for a non-null list, by the value of
  \<^verbatim>\<open>nvs_read\<close>: the size of the region gives \<open>E_SUCCESS\<close> with the list as read; \<open>-ENOENT\<close>
  gives \<open>E_SUCCESS\<close> with the list reset and one call of \<^verbatim>\<open>nvs_write\<close> with the reset
  list, whatever that call returns; every other value gives \<open>E_ERROR\<close>.
\<close>

lemma load_result_cases:
  assumes "t \<noteq> NULL" and "list_at h t = Some l"
    and "cleared = empty_list (length (data (read_buffer env)))"
  shows "(read_result env = int region_size \<longrightarrow>
            load_temperature_list region_size env fs h t
              = Some (E_SUCCESS, h(t \<mapsto> read_buffer env), fs))
       \<and> (read_result env = - ENOENT \<longrightarrow>
            load_temperature_list region_size env fs h t
              = Some (E_SUCCESS, h(t \<mapsto> cleared),
                      nvs_write fs NVS_KEY_TEMPERATURE_DATA cleared (write_result env)))
       \<and> (read_result env \<noteq> int region_size \<and> read_result env \<noteq> - ENOENT \<longrightarrow>
            load_temperature_list region_size env fs h t
              = Some (E_ERROR, h(t \<mapsto> read_buffer env), fs))
       \<and> ((\<exists>h' fs'. load_temperature_list region_size env fs h t = Some (E_SUCCESS, h', fs'))
            \<longleftrightarrow> read_result env = int region_size \<or> read_result env = - ENOENT)"
  using assms
  by (auto simp: load_temperature_list_def reset_temperature_list_def list_at_def Let_def
      empty_list_def nvs_write_def ENOENT_def NULL_def)

lemma store_checks_write:
  assumes "t \<noteq> NULL" and "list_at h t = Some l"
  shows "store_temperature_list region_size env fs h t
       = Some (if write_result env = int region_size \<or> write_result env = 0
               then E_SUCCESS else E_ERROR,
               nvs_write fs NVS_KEY_TEMPERATURE_DATA l (write_result env))"
  using assms
  by (simp add: store_temperature_list_def Let_def)

text \<open>
  C7. The key-absent case when the store refuses the write. The store is empty,
  \<^verbatim>\<open>nvs_read\<close> returns \<open>-ENOENT\<close> and \<^verbatim>\<open>nvs_write\<close> returns \<open>-28\<close> (\<open>-ENOSPC\<close>).
  \<^verbatim>\<open>load_temperature_list\<close> resets the list and returns \<open>E_SUCCESS\<close>, and the store is still
  empty afterwards: the id of the temperature data, which the empty record was to be
  written under, is absent. \<^verbatim>\<open>store_temperature_list\<close>, on the reset list and with the same
  value of \<^verbatim>\<open>nvs_write\<close>, returns \<open>E_ERROR\<close>.
\<close>

theorem load_ignores_failed_write:
  "load_temperature_list 16
      \<lparr>read_result = - ENOENT, read_buffer = example_dest, write_result = - 28\<rparr>
      Map.empty example_memory 3
     = Some (E_SUCCESS, example_memory(3 \<mapsto> empty_list 3), Map.empty)
   \<and> (Map.empty :: nvs_fs) NVS_KEY_TEMPERATURE_DATA = None
   \<and> store_temperature_list 16
      \<lparr>read_result = - ENOENT, read_buffer = example_dest, write_result = - 28\<rparr>
      Map.empty (example_memory(3 \<mapsto> empty_list 3)) 3
     = Some (E_ERROR, Map.empty)"
proof -
  let ?env = "\<lparr>read_result = - ENOENT, read_buffer = example_dest, write_result = - 28\<rparr>"
  have c: "empty_list 3 = empty_list (length (data (read_buffer ?env)))"
    by (simp add: example_dest_def numeral_3_eq_3)
  have l: "load_temperature_list 16 ?env Map.empty example_memory 3
         = Some (E_SUCCESS, example_memory(3 \<mapsto> empty_list 3), Map.empty)"
    using load_result_cases [OF example_pointers(3) example_lists(3) c, of 16 Map.empty]
    by (simp add: nvs_write_def)
  have s: "store_temperature_list 16 ?env Map.empty (example_memory(3 \<mapsto> empty_list 3)) 3
         = Some (E_ERROR, Map.empty)"
    using store_checks_write [OF example_pointers(3),
        of "example_memory(3 \<mapsto> empty_list 3)" "empty_list 3" 16 ?env Map.empty]
    by (simp add: nvs_write_def list_at_def NULL_def)
  show ?thesis
    using l s by simp
qed

section \<open>Properties of the ordered multi-lock\<close>

lemma bubble_sort3_sorts: "bubble_sort3 [a, b, c] = sort [a, b, c]"
  by (simp add: bubble_sort3_def bubble_inner_def bubble_swap_def upt_rec
      numeral_2_eq_2 numeral_3_eq_3)

lemma sorted_list_of_set3:
  assumes "distinct [a, b, c::nat]"
  shows "sorted_list_of_set {a, b, c} = sort [a, b, c]"
proof -
  have "sorted_list_of_set (set [a, b, c]) = sort [a, b, c]"
    using assms by (intro sorted_list_of_set_sort_remdups [THEN trans]) simp
  then show ?thesis by simp
qed

text \<open>
  C9. For three mutexes with distinct addresses, given in any argument order,
  \<^verbatim>\<open>TRIPLE_LOCK\<close> locks them in ascending order of address and \<^verbatim>\<open>TRIPLE_UNLOCK\<close> unlocks them
  in descending order. Both sequences are determined by the set of the three addresses
  alone, so two call sites that lock the same mutexes lock them in the same relative order.
\<close>

theorem triple_lock_order:
  assumes "distinct [a, b, c]"
  shows "TRIPLE_LOCK a b c = sorted_list_of_set {a, b, c}
       \<and> TRIPLE_UNLOCK a b c = rev (sorted_list_of_set {a, b, c})"
  unfolding sorted_list_of_set3 [OF assms]
  by (simp add: TRIPLE_LOCK_def TRIPLE_UNLOCK_def bubble_sort3_sorts Let_def)

theorem triple_lock_order_witness:
  "distinct [30, 10, 20::nat]
   \<and> TRIPLE_LOCK 30 10 20 = [10, 20, 30] \<and> TRIPLE_UNLOCK 30 10 20 = [30, 20, 10]"
  using triple_lock_order [of 30 10 20]
  by (simp add: insert_commute)


section \<open>The merge iterator yields the chronological merge\<close>

lemma list_at_NULL [simp]: "list_at h NULL = None"
  by (simp add: list_at_def)

lemma chrono_merge_Nil2 [simp]: "chrono_merge xs [] = xs"
  by (cases xs) simp_all

lemma drop_samples:
  assumes "n < len l" and "len l \<le> length (data l)"
  shows "drop n (samples l) = data l ! n # drop (Suc n) (samples l)"
proof -
  have "n < length (samples l)" using assms by (simp add: samples_def)
  then have "drop n (samples l) = samples l ! n # drop (Suc n) (samples l)"
    by (simp add: Cons_nth_drop_Suc)
  moreover have "samples l ! n = data l ! n" using assms by (simp add: samples_def)
  ultimately show ?thesis by simp
qed

lemma drop_samples_end: "len l \<le> length (data l) \<Longrightarrow> drop (len l) (samples l) = []"
  by (simp add: samples_def)

lemma iter_yields_Nil: "iter_yields h m [] \<Longrightarrow> merge_iterate h m s = Some (E_END_OF_ITER, s, m)"
  by (simp add: iter_yields_def merge_iterate_def)

lemma iter_yields_Cons:
  assumes "iter_yields h m (z # zs)"
  shows "\<exists>m'. merge_iterate h m s = Some (E_SUCCESS, Some (current_list m, current_index m), m')
            \<and> sample_at h (Some (current_list m, current_index m)) = Some z
            \<and> iter_yields h m' zs"
proof -
  from assms obtain l1 l2 where
    cur: "current_list m \<noteq> NULL"
    and z: "sample_at h (Some (current_list m, current_index m)) = Some z"
    and l1: "list_at h (src1 m) = Some l1" and l2: "list_at h (src2 m) = Some l2"
    and w1: "len l1 \<le> length (data l1)" and w2: "len l2 \<le> length (data l2)"
    and n1: "next_src1_index m \<le> len l1" and n2: "next_src2_index m \<le> len l2"
    and zs: "zs = chrono_merge (drop (next_src1_index m) (samples l1))
                               (drop (next_src2_index m) (samples l2))"
    by (auto simp: iter_yields_def)
  consider (both) "next_src1_index m = len l1" "next_src2_index m = len l2"
    | (one) "next_src1_index m = len l1" "next_src2_index m < len l2"
    | (two) "next_src1_index m < len l1" "next_src2_index m = len l2"
    | (none) "next_src1_index m < len l1" "next_src2_index m < len l2"
    using n1 n2 by linarith
  then show ?thesis
  proof cases
    case both
    then show ?thesis
      using cur z l1 l2 w1 w2 zs
      by (simp add: merge_iterate_def iter_yields_def drop_samples_end)
  next
    case one
    then show ?thesis
      using cur z l1 l2 w1 w2 zs drop_samples [of "next_src2_index m" l2]
      by (auto simp: merge_iterate_def iter_yields_def drop_samples_end sample_at_def array_read_def)
  next
    case two
    then show ?thesis
      using cur z l1 l2 w1 w2 zs drop_samples [of "next_src1_index m" l1]
      by (auto simp: merge_iterate_def iter_yields_def drop_samples_end sample_at_def array_read_def)
  next
    case none
    then show ?thesis
      using cur z l1 l2 w1 w2 zs drop_samples [of "next_src1_index m" l1]
        drop_samples [of "next_src2_index m" l2]
      by (auto simp: merge_iterate_def iter_yields_def sample_at_def array_read_def)
  qed
qed

lemma iter_yieldsI:
  assumes "current_list m \<noteq> NULL"
    and "sample_at h (Some (current_list m, current_index m)) = Some z"
    and "list_at h (src1 m) = Some l1" and "list_at h (src2 m) = Some l2"
    and "len l1 \<le> length (data l1)" and "len l2 \<le> length (data l2)"
    and "next_src1_index m \<le> len l1" and "next_src2_index m \<le> len l2"
    and "rest = chrono_merge (drop (next_src1_index m) (samples l1))
                             (drop (next_src2_index m) (samples l2))"
  shows "iter_yields h m (z # rest)"
  using assms unfolding iter_yields_def by auto

lemma chrono_merge_heads:
  assumes "xs = x # xs'" and "ys = y # ys'"
  shows "chrono_merge xs ys =
           (if uptime x < uptime y then x # chrono_merge xs' ys else y # chrono_merge xs ys')"
  using assms by simp

lemma init_yields:
  assumes l1: "list_at h s1 = Some l1" and l2: "list_at h s2 = Some l2"
    and w1: "len l1 \<le> length (data l1)" and w2: "len l2 \<le> length (data l2)"
  shows "\<exists>m. init_merge_iterator h m0 s1 s2 = Some m
           \<and> iter_yields h m (chrono_merge (samples l1) (samples l2))"
proof -
  have n1: "s1 \<noteq> NULL" using assms by auto
  have n2: "s2 \<noteq> NULL" using assms by auto
  have d1: "samples l1 = data l1 ! 0 # drop (Suc 0) (samples l1)" if "len l1 \<noteq> 0"
    using drop_samples [of 0 l1] assms that by simp
  have d2: "samples l2 = data l2 ! 0 # drop (Suc 0) (samples l2)" if "len l2 \<noteq> 0"
    using drop_samples [of 0 l2] assms that by simp
  have e1: "len l1 = 0 \<Longrightarrow> samples l1 = []" by (simp add: samples_def)
  have e2: "len l2 = 0 \<Longrightarrow> samples l2 = []" by (simp add: samples_def)
  let ?m1 = "m0\<lparr>src1 := s1, src2 := s2, current_index := 0, current_list := s1,
                 next_src1_index := 1, next_src2_index := 0\<rparr>"
  let ?m2 = "m0\<lparr>src1 := s1, src2 := s2, current_index := 0, current_list := s2,
                 next_src1_index := 0, next_src2_index := 1\<rparr>"
  have y1: "iter_yields h ?m1 (data l1 ! 0 # chrono_merge (drop 1 (samples l1)) (samples l2))"
    if "len l1 \<noteq> 0"
    using that l1 l2 w1 w2 n1
    by (intro iter_yieldsI [where ?l1.0 = l1 and ?l2.0 = l2])
       (auto simp: sample_at_def array_read_def)
  have y2: "iter_yields h ?m2 (data l2 ! 0 # chrono_merge (samples l1) (drop 1 (samples l2)))"
    if "len l2 \<noteq> 0"
    using that l1 l2 w1 w2 n2
    by (intro iter_yieldsI [where ?l1.0 = l1 and ?l2.0 = l2])
       (auto simp: sample_at_def array_read_def)
  consider (both) "len l1 = 0" "len l2 = 0" | (one) "len l1 = 0" "len l2 \<noteq> 0"
    | (two) "len l1 \<noteq> 0" "len l2 = 0" | (none) "len l1 \<noteq> 0" "len l2 \<noteq> 0"
    by blast
  then show ?thesis
  proof cases
    case both
    then show ?thesis using assms e1 e2
      by (simp add: init_merge_iterator_def iter_yields_def)
  next
    case one
    have eq: "chrono_merge (samples l1) (samples l2)
                = data l2 ! 0 # chrono_merge (samples l1) (drop 1 (samples l2))"
      using e1 [OF one(1)] d2 [OF one(2)] by simp
    have "init_merge_iterator h m0 s1 s2 = Some ?m2"
      using one l1 l2 by (simp add: init_merge_iterator_def)
    then show ?thesis using y2 [OF one(2)] unfolding eq by blast
  next
    case two
    have eq: "chrono_merge (samples l1) (samples l2)
                = data l1 ! 0 # chrono_merge (drop 1 (samples l1)) (samples l2)"
      using e2 [OF two(2)] d1 [OF two(1)] by simp
    have "init_merge_iterator h m0 s1 s2 = Some ?m1"
      using two l1 l2 by (simp add: init_merge_iterator_def)
    then show ?thesis using y1 [OF two(1)] unfolding eq by blast
  next
    case none
    have r1: "array_read (data l1) 0 = Some (data l1 ! 0)"
      using none w1 by (auto simp: array_read_def)
    have r2: "array_read (data l2) 0 = Some (data l2 ! 0)"
      using none w2 by (auto simp: array_read_def)
    have eq: "chrono_merge (samples l1) (samples l2) =
        (if uptime (data l1 ! 0) < uptime (data l2 ! 0)
         then data l1 ! 0 # chrono_merge (drop 1 (samples l1)) (samples l2)
         else data l2 ! 0 # chrono_merge (samples l1) (drop 1 (samples l2)))"
      using chrono_merge_heads [OF d1 [OF none(1)] d2 [OF none(2)]] by simp
    show ?thesis
    proof (cases "uptime (data l1 ! 0) < uptime (data l2 ! 0)")
      case True
      then have "init_merge_iterator h m0 s1 s2 = Some ?m1"
        using none l1 l2 r1 r2 by (simp add: init_merge_iterator_def)
      then show ?thesis using y1 [OF none(1)] True unfolding eq by simp
    next
      case False
      then have "init_merge_iterator h m0 s1 s2 = Some ?m2"
        using none l1 l2 r1 r2 by (simp add: init_merge_iterator_def)
      then show ?thesis using y2 [OF none(2)] False unfolding eq by simp
    qed
  qed
qed

lemma mset_chrono_merge: "mset (chrono_merge xs ys) = mset xs + mset ys"
  by (induction xs ys rule: chrono_merge.induct) simp_all

lemma length_chrono_merge: "length (chrono_merge xs ys) = length xs + length ys"
  by (induction xs ys rule: chrono_merge.induct) simp_all

lemma set_chrono_merge: "set (chrono_merge xs ys) = set xs \<union> set ys"
  by (induction xs ys rule: chrono_merge.induct) auto

lemma sorted_chrono_merge:
  "sorted (map uptime xs) \<Longrightarrow> sorted (map uptime ys) \<Longrightarrow> sorted (map uptime (chrono_merge xs ys))"
  by (induction xs ys rule: chrono_merge.induct) (auto simp: set_chrono_merge)

lemma drain_loop:
  assumes "iter_yields h m zs" and "list_at h dest = Some d"
    and "length merged + length zs \<le> N" and "N \<le> length (data d)"
  shows "merge_without_decimation_loop N h dest m s merged =
           Some (E_SUCCESS,
                 h(dest \<mapsto> d\<lparr>data := (merged @ zs) @ drop (length merged + length zs) (data d),
                              len := length merged + length zs\<rparr>))"
  using assms
proof (induction zs arbitrary: m s merged)
  case Nil
  then show ?case
    by (subst merge_without_decimation_loop.simps)
       (simp add: iter_yields_Nil copy_to_dest_def)
next
  case (Cons z zs)
  from iter_yields_Cons [OF Cons.prems(1), of s] obtain m' where
    step: "merge_iterate h m s = Some (E_SUCCESS, Some (current_list m, current_index m), m')"
    and z: "sample_at h (Some (current_list m, current_index m)) = Some z"
    and rest: "iter_yields h m' zs"
    by blast
  have "merge_without_decimation_loop N h dest m s merged =
          merge_without_decimation_loop N h dest m' (Some (current_list m, current_index m))
            (merged @ [z])"
    using step z Cons.prems(3)
    by (subst merge_without_decimation_loop.simps) simp
  also have "\<dots> = Some (E_SUCCESS,
                 h(dest \<mapsto> d\<lparr>data := ((merged @ [z]) @ zs)
                                  @ drop (length (merged @ [z]) + length zs) (data d),
                              len := length (merged @ [z]) + length zs\<rparr>))"
    using Cons.prems by (intro Cons.IH [OF rest]) simp_all
  also have "\<dots> = Some (E_SUCCESS,
                 h(dest \<mapsto> d\<lparr>data := (merged @ z # zs)
                                  @ drop (length merged + length (z # zs)) (data d),
                              len := length merged + length (z # zs)\<rparr>))"
    by simp
  finally show ?case .
qed

section \<open>Tie-break of the iterator\<close>




section \<open>Exact merge\<close>

lemma exact_run:
  assumes "s1 \<noteq> NULL" and "s2 \<noteq> NULL" and "dest \<noteq> NULL"
    and "list_at h s1 = Some l1" and "list_at h s2 = Some l2" and "list_at h dest = Some d"
    and "len l1 \<le> length (data l1)" and "len l2 \<le> length (data l2)"
    and "len l1 + len l2 \<le> N" and "N \<le> length (data d)"
  shows "merge_without_decimation N h s1 s2 dest =
           Some (E_SUCCESS,
             h(dest \<mapsto> d\<lparr>data := chrono_merge (samples l1) (samples l2)
                                     @ drop (len l1 + len l2) (data d),
                          len := len l1 + len l2\<rparr>))"
proof -
  let ?zs = "chrono_merge (samples l1) (samples l2)"
  have lz: "length ?zs = len l1 + len l2"
    using assms(7,8) by (simp add: length_chrono_merge samples_def)
  from init_yields [OF assms(4,5,7,8), of uninit_iterator] obtain m where
    m: "init_merge_iterator h uninit_iterator s1 s2 = Some m" and y: "iter_yields h m ?zs"
    by blast
  have "merge_without_decimation_loop N h dest m None [] =
          Some (E_SUCCESS, h(dest \<mapsto> d\<lparr>data := ?zs @ drop (len l1 + len l2) (data d),
                                        len := len l1 + len l2\<rparr>))"
    using drain_loop [OF y assms(6), of "[]" N None] assms(9,10) lz by simp
  then show ?thesis
    using assms(1-3) m by (simp add: merge_without_decimation_def)
qed

text \<open>
  C1. For two lists whose valid entries are non-decreasing in timestamp and whose
  lengths add up to at most \<open>N\<close> (equality included), \<^verbatim>\<open>merge_temperature_lists\<close> takes the
  path of \<^verbatim>\<open>merge_without_decimation\<close> and returns \<open>E_SUCCESS\<close>; the destination then has
  length \<open>len l1 + len l2\<close>, its valid entries are non-decreasing in timestamp, and they
  are, as a multiset, the union of the valid entries of the two sources.
\<close>

theorem exact_merge_complete:
  assumes "s1 \<noteq> NULL" and "s2 \<noteq> NULL" and "dest \<noteq> NULL"
    and "list_at h s1 = Some l1" and "list_at h s2 = Some l2" and "list_at h dest = Some d"
    and "length (data l1) = N" and "length (data l2) = N" and "length (data d) = N"
    and "sorted (map uptime (samples l1))" and "sorted (map uptime (samples l2))"
    and "len l1 + len l2 \<le> N"
  shows "\<exists>d'. merge_temperature_lists N h s1 s2 dest = Some (E_SUCCESS, h(dest \<mapsto> d'))
            \<and> merge_temperature_lists N h s1 s2 dest = merge_without_decimation N h s1 s2 dest
            \<and> length (data d') = N
            \<and> len d' = len l1 + len l2
            \<and> sorted (map uptime (samples d'))
            \<and> mset (samples d') = mset (samples l1) + mset (samples l2)"
proof -
  let ?zs = "chrono_merge (samples l1) (samples l2)"
  have w1: "len l1 \<le> length (data l1)" and w2: "len l2 \<le> length (data l2)"
    and wd: "N \<le> length (data d)"
    using assms by simp_all
  have lz: "length ?zs = len l1 + len l2"
    using w1 w2 by (simp add: length_chrono_merge samples_def)
  let ?d' = "d\<lparr>data := ?zs @ drop (len l1 + len l2) (data d), len := len l1 + len l2\<rparr>"
  have run: "merge_without_decimation N h s1 s2 dest = Some (E_SUCCESS, h(dest \<mapsto> ?d'))"
    using assms(1-6) w1 w2 assms(12) wd by (rule exact_run)
  have disp: "merge_temperature_lists N h s1 s2 dest = merge_without_decimation N h s1 s2 dest"
    using assms by (simp add: merge_temperature_lists_def)
  have sd: "samples ?d' = ?zs" using lz by (simp add: samples_def)
  have p1: "sorted (map uptime (samples ?d'))"
    unfolding sd using assms(10,11) by (rule sorted_chrono_merge)
  have p2: "mset (samples ?d') = mset (samples l1) + mset (samples l2)"
    unfolding sd by (rule mset_chrono_merge)
  have p3: "len ?d' = len l1 + len l2" by simp
  have p4: "length (data ?d') = N" using lz assms(9,12) by simp
  show ?thesis
    using run disp p1 p2 p3 p4 by (intro exI [of _ ?d']) (simp only: simp_thms)
qed

theorem exact_merge_complete_witness:
  "\<exists>d'. merge_temperature_lists 3 example_memory 1 4 3 = Some (E_SUCCESS, example_memory(3 \<mapsto> d'))
       \<and> len d' = 3
       \<and> mset (samples d') = {#\<lparr>temperature = 160, uptime = 10\<rparr>, \<lparr>temperature = 800, uptime = 50\<rparr>,
                                \<lparr>temperature = 320, uptime = 20\<rparr>#}"
  using exact_merge_complete [of 1 4 3 example_memory example_src1 example_short example_dest 3]
  by (auto simp: example_defs)

section \<open>Target timestamps of the decimation\<close>

lemma target_uptime_0: "target_uptime start bp lp 0 = start"
  by (simp add: target_uptime_def)

lemma target_uptime_Suc:
  "target_uptime start bp lp (Suc i) =
     target_uptime start bp lp i + (bp + (if Suc i \<le> unat lp then 1 else 0))"
proof -
  have "min (Suc i) (unat lp) = min i (unat lp) + (if Suc i \<le> unat lp then 1 else 0)"
    by auto
  then have "(of_nat (min (Suc i) (unat lp)) :: 32 word)
               = of_nat (min i (unat lp)) + (if Suc i \<le> unat lp then 1 else 0)"
    by (simp only: of_nat_add) simp
  then show ?thesis
    by (simp add: target_uptime_def algebra_simps)
qed

lemma copy_to_dest_full:
  assumes "list_at h dest = Some d" and "length merged \<le> length (data d)"
  shows "copy_to_dest h dest merged =
           Some (h(dest \<mapsto> d\<lparr>data := merged @ drop (length merged) (data d),
                              len := length merged\<rparr>))"
  using assms by (simp add: copy_to_dest_def)

lemma dec_loop:
  assumes "iter_yields h it rest"
    and "sample_at h prev = Some p" and "sample_at h cur = Some c"
    and "length merged \<le> N"
    and "sorted (map uptime (p # c # rest))"
    and "t = target_uptime start bp lp (length merged)"
    and "\<forall>j<N. target_uptime start bp lp j \<le> uptime (last (c # rest))"
    and "\<forall>j. Suc j < N \<longrightarrow> target_uptime start bp lp j \<le> target_uptime start bp lp (Suc j)"
    and "length merged < N \<longrightarrow> uptime p \<le> t"
  shows "\<exists>out. length out = N \<and> take (length merged) out = merged
             \<and> (\<forall>j<N. length merged \<le> j \<longrightarrow> uptime (out ! j) = target_uptime start bp lp j)
             \<and> (\<forall>dest d. list_at h dest = Some d \<longrightarrow> N \<le> length (data d) \<longrightarrow>
                   merge_with_decimation_loop N h dest bp lp it prev cur merged t =
                     Some (E_SUCCESS, h(dest \<mapsto> d\<lparr>data := out @ drop N (data d), len := N\<rparr>)))"
  using assms
proof (induction "(N - length merged) + length rest"
    arbitrary: it prev cur p c rest merged t rule: less_induct)
  case less
  note iy = less.prems(1) and pp = less.prems(2) and cc = less.prems(3)
    and lm = less.prems(4)
    and srt = less.prems(5) and tt = less.prems(6) and bnd = less.prems(7)
    and mono = less.prems(8) and low = less.prems(9)
  show ?case
  proof (cases "length merged < N")
    case False
    then have eqN: "length merged = N" using lm by simp
    have "merge_with_decimation_loop N h dest bp lp it prev cur merged t =
            Some (E_SUCCESS, h(dest \<mapsto> d\<lparr>data := merged @ drop N (data d), len := N\<rparr>))"
      if "list_at h dest = Some d" and "N \<le> length (data d)" for dest d
      using False copy_to_dest_full [OF that(1), of merged] that(2) eqN
      by (subst merge_with_decimation_loop.simps) simp
    then show ?thesis using eqN by (intro exI [of _ merged]) simp
  next
    case True
    then have pt: "uptime p \<le> t" using low by simp
    show ?thesis
    proof (cases "t \<le> uptime c")
      case emit: True
      let ?s = "interpolate p c t"
      let ?merged' = "merged @ [?s]"
      let ?t' = "t + (bp + (if length ?merged' \<le> unat lp then 1 else 0))"
      have unf: "merge_with_decimation_loop N h dest bp lp it prev cur merged t =
                 merge_with_decimation_loop N h dest bp lp it prev cur ?merged' ?t'" for dest
        using True pp cc pt emit
        by (subst merge_with_decimation_loop.simps) (simp add: Let_def)
      have t': "?t' = target_uptime start bp lp (length ?merged')"
        using tt by (simp add: target_uptime_Suc)
      have low': "length ?merged' < N \<longrightarrow> uptime p \<le> ?t'"
        unfolding t' using mono pt tt by (auto simp: order_trans)
      have meas: "(N - length ?merged') + length rest < (N - length merged) + length rest"
        using True by simp
      from less.hyps [OF meas iy pp cc _ srt t' bnd mono low'] True
      obtain out where
        run: "\<forall>dest d. list_at h dest = Some d \<longrightarrow> N \<le> length (data d) \<longrightarrow>
                 merge_with_decimation_loop N h dest bp lp it prev cur ?merged' ?t' =
                 Some (E_SUCCESS, h(dest \<mapsto> d\<lparr>data := out @ drop N (data d), len := N\<rparr>))"
        and lo: "length out = N" and tk: "take (length ?merged') out = ?merged'"
        and tg: "\<forall>j<N. length ?merged' \<le> j \<longrightarrow> uptime (out ! j) = target_uptime start bp lp j"
        by auto
      have tk0: "take (length merged) out = merged"
      proof -
        have "take (length merged) (take (length ?merged') out) = take (length merged) ?merged'"
          by (simp only: tk)
        then show ?thesis by (simp add: min_def)
      qed
      have at: "out ! length merged = ?s"
      proof -
        have "take (length ?merged') out ! length merged = ?merged' ! length merged"
          by (simp only: tk)
        then show ?thesis by simp
      qed
      have up: "uptime ?s = t" by (simp add: interpolate_def Let_def)
      have "\<forall>j<N. length merged \<le> j \<longrightarrow> uptime (out ! j) = target_uptime start bp lp j"
      proof (intro allI impI)
        fix j assume "j < N" "length merged \<le> j"
        then consider "j = length merged" | "length ?merged' \<le> j" by fastforce
        then show "uptime (out ! j) = target_uptime start bp lp j"
        proof cases
          case 1 then show ?thesis using at up tt by simp
        next
          case 2 then show ?thesis using tg \<open>j < N\<close> by blast
        qed
      qed
      then show ?thesis using run lo tk0 unfolding unf by (intro exI [of _ out]) simp
    next
      case shift: False
      then have gt: "uptime c < t" by simp
      have "t \<le> uptime (last (c # rest))" using bnd True tt by blast
      with gt have "rest \<noteq> []" by (cases rest) auto
      then obtain z rest' where rest: "rest = z # rest'" by (cases rest) auto
      from iter_yields_Cons [OF iy [unfolded rest], of cur] obtain it' where
        step: "merge_iterate h it cur = Some (E_SUCCESS, Some (current_list it, current_index it), it')"
        and zz: "sample_at h (Some (current_list it, current_index it)) = Some z"
        and iy': "iter_yields h it' rest'"
        by blast
      let ?cur' = "Some (current_list it, current_index it)"
      have unf: "merge_with_decimation_loop N h dest bp lp it prev cur merged t =
                 merge_with_decimation_loop N h dest bp lp it' cur ?cur' merged t" for dest
        using True pp cc pt shift step
        by (subst merge_with_decimation_loop.simps) simp
      have srt': "sorted (map uptime (c # z # rest'))" using srt rest by simp
      have bnd': "\<forall>j<N. target_uptime start bp lp j \<le> uptime (last (z # rest'))"
        using bnd rest by simp
      have low': "length merged < N \<longrightarrow> uptime c \<le> t" using gt by (simp add: less_imp_le)
      have meas: "(N - length merged) + length rest' < (N - length merged) + length rest"
        using rest by simp
      from less.hyps [OF meas iy' cc zz lm srt' tt bnd' mono low']
      show ?thesis unfolding unf .
    qed
  qed
qed

lemma word_of_nat_pred:
  assumes "1 \<le> N"
  shows "(of_nat N - 1 :: 32 word) = of_nat (N - 1)"
  using assms by simp

lemma unat_divisor:
  assumes "1 \<le> N" and "N < 2 ^ 32"
  shows "unat (of_nat N - 1 :: 32 word) = N - 1"
proof -
  have small: "(N - 1) mod 2 ^ 32 = N - 1"
    using assms by (intro mod_less) arith
  have "unat (of_nat (N - 1) :: 32 word) = (N - 1) mod 2 ^ 32"
    by (simp only: unat_of_nat) simp
  then show ?thesis
    by (simp only: word_of_nat_pred [OF assms(1)] small)
qed

lemma target_uptime_unat_gen:
  assumes "unat start + j * unat bp + min j (unat lp) < 2 ^ 32"
  shows "unat (target_uptime start bp lp j) = unat start + j * unat bp + min j (unat lp)"
proof -
  have "target_uptime start bp lp j
          = (of_nat (unat start + j * unat bp + min j (unat lp)) :: 32 word)"
    by (simp add: target_uptime_def)
  then have "unat (target_uptime start bp lp j)
          = (unat start + j * unat bp + min j (unat lp)) mod 2 ^ 32"
    by (simp only: unat_of_nat) simp
  then show ?thesis using assms by simp
qed

lemma target_uptime_unat:
  fixes start end_uptime :: "32 word"
  assumes se: "start \<le> end_uptime" and N: "2 \<le> N" "N < 2 ^ 32" and j: "j < N"
  shows "unat (target_uptime start
                 ((end_uptime - start) div (of_nat N - 1))
                 ((end_uptime - start) mod (of_nat N - 1)) j)
           = unat start + j * ((unat end_uptime - unat start) div (N - 1))
               + min j ((unat end_uptime - unat start) mod (N - 1))"
    (is "unat (target_uptime start ?bp ?lp j) = ?V")
    and "unat start + j * ((unat end_uptime - unat start) div (N - 1))
               + min j ((unat end_uptime - unat start) mod (N - 1)) \<le> unat end_uptime"
proof -
  define D where "D = unat end_uptime - unat start"
  define B where "B = D div (N - 1)"
  define L where "L = D mod (N - 1)"
  have N1: "1 \<le> N" using N(1) by simp
  have ud: "unat (of_nat N - 1 :: 32 word) = N - 1"
    using N1 N(2) by (rule unat_divisor)
  have uD: "unat (end_uptime - start) = D"
    unfolding D_def using se by (rule unat_sub)
  have ubp: "unat ?bp = B" by (simp only: unat_div ud uD B_def)
  have ulp: "unat ?lp = L" by (simp only: unat_mod ud uD L_def)
  have le: "unat start \<le> unat end_uptime" using se by (simp only: word_le_nat_alt)
  have "j * B \<le> (N - 1) * B" using j by (intro mult_le_mono1) simp
  moreover have "min j L \<le> L" by simp
  moreover have "(N - 1) * B + L = D" by (simp add: B_def L_def)
  ultimately have "j * B + min j L \<le> D" by linarith
  then have bound: "unat start + j * B + min j L \<le> unat end_uptime"
    using le by (simp add: D_def)
  then show "?V \<le> unat end_uptime" by (simp only: B_def L_def D_def)
  have "unat end_uptime < 2 ^ 32" using unsigned_less [of end_uptime] by simp
  with bound have small: "unat start + j * unat ?bp + min j (unat ?lp) < 2 ^ 32"
    unfolding ubp ulp by (rule le_less_trans)
  show "unat (target_uptime start ?bp ?lp j) = ?V"
    using target_uptime_unat_gen [OF small] by (simp only: ubp ulp B_def L_def D_def)
qed

lemma target_uptime_le_end:
  fixes start end_uptime :: "32 word"
  assumes "start \<le> end_uptime" and "2 \<le> N" and "N < 2 ^ 32" and "j < N"
  shows "target_uptime start
                 ((end_uptime - start) div (of_nat N - 1))
                 ((end_uptime - start) mod (of_nat N - 1)) j \<le> end_uptime"
  using target_uptime_unat [OF assms] by (simp only: word_le_nat_alt)

lemma target_uptime_mono:
  fixes start end_uptime :: "32 word"
  assumes "start \<le> end_uptime" and "2 \<le> N" and "N < 2 ^ 32" and "Suc j < N"
  shows "target_uptime start
                 ((end_uptime - start) div (of_nat N - 1))
                 ((end_uptime - start) mod (of_nat N - 1)) j
         \<le> target_uptime start
                 ((end_uptime - start) div (of_nat N - 1))
                 ((end_uptime - start) mod (of_nat N - 1)) (Suc j)"
proof -
  have j: "j < N" using assms(4) by simp
  have "j * B + min j L \<le> Suc j * B + min (Suc j) L" for B L :: nat
    by (simp add: add_le_mono min.coboundedI2 le_SucI)
  then show ?thesis
    unfolding word_le_nat_alt
      target_uptime_unat(1) [OF assms(1-3) j] target_uptime_unat(1) [OF assms(1-3) assms(4)]
    by (simp only: add.assoc add_le_cancel_left)
qed

lemma target_uptime_last:
  fixes start end_uptime :: "32 word"
  assumes "start \<le> end_uptime" and "2 \<le> N" and "N < 2 ^ 32"
  shows "target_uptime start
                 ((end_uptime - start) div (of_nat N - 1))
                 ((end_uptime - start) mod (of_nat N - 1)) (N - 1) = end_uptime"
proof -
  have j: "N - 1 < N" using assms(2) by simp
  have le: "unat start \<le> unat end_uptime" using assms(1) by (simp only: word_le_nat_alt)
  have "(unat end_uptime - unat start) mod (N - 1) < N - 1"
    using assms(2) by (intro mod_less_divisor) simp
  then have "min (N - 1) ((unat end_uptime - unat start) mod (N - 1))
               = (unat end_uptime - unat start) mod (N - 1)"
    by simp
  then have "unat start + (N - 1) * ((unat end_uptime - unat start) div (N - 1))
               + min (N - 1) ((unat end_uptime - unat start) mod (N - 1)) = unat end_uptime"
    using le by (simp add: add.assoc)
  then show ?thesis
    using target_uptime_unat(1) [OF assms j] by (simp only: word_unat_eq_iff)
qed


lemma hd_chrono_merge:
  "uptime (hd (chrono_merge (x # xs) (y # ys))) = min (uptime x) (uptime y)"
  by (auto simp: min_def)

lemma sorted_last_Max:
  fixes f :: "'a \<Rightarrow> 32 word"
  assumes "sorted (map f zs)" and "zs \<noteq> []"
  shows "f (last zs) = Max (f ` set zs)"
  using assms
proof (induction zs)
  case Nil
  then show ?case by simp
next
  case (Cons z zs)
  show ?case
  proof (cases "zs = []")
    case True
    then show ?thesis by simp
  next
    case False
    then have ih: "f (last zs) = Max (f ` set zs)" using Cons by simp
    have "f z \<le> f (last zs)" using Cons.prems(1) False by simp
    then have "max (f z) (Max (f ` set zs)) = Max (f ` set zs)" using ih by (simp add: max_def)
    then show ?thesis using False ih by simp
  qed
qed

lemma last_chrono_merge:
  assumes "sorted (map uptime xs)" and "sorted (map uptime ys)" and "xs \<noteq> []" and "ys \<noteq> []"
  shows "uptime (last (chrono_merge xs ys)) = max (uptime (last xs)) (uptime (last ys))"
proof -
  have ne: "chrono_merge xs ys \<noteq> []"
    using assms(3) length_chrono_merge [of xs ys] by (cases "chrono_merge xs ys") auto
  have "uptime (last (chrono_merge xs ys)) = Max (uptime ` set (chrono_merge xs ys))"
    using sorted_chrono_merge [OF assms(1,2)] ne by (rule sorted_last_Max)
  also have "\<dots> = Max (uptime ` set xs \<union> uptime ` set ys)"
    by (simp add: set_chrono_merge image_Un)
  also have "\<dots> = max (Max (uptime ` set xs)) (Max (uptime ` set ys))"
    using assms(3,4) by (intro Max_Un) simp_all
  also have "\<dots> = max (uptime (last xs)) (uptime (last ys))"
    using sorted_last_Max [OF assms(1,3)] sorted_last_Max [OF assms(2,4)] by simp
  finally show ?thesis .
qed


lemma last_samples:
  assumes "len l \<noteq> 0" and "len l \<le> length (data l)"
  shows "last (samples l) = data l ! (len l - 1)" and "samples l \<noteq> []"
    and "hd (samples l) = data l ! 0"
proof -
  show ne: "samples l \<noteq> []" using assms by (auto simp: samples_def)
  have "length (samples l) = len l" using assms by (simp add: samples_def)
  then have "last (samples l) = samples l ! (len l - 1)"
    using ne by (simp add: last_conv_nth)
  then show "last (samples l) = data l ! (len l - 1)"
    using assms by (simp add: samples_def)
  show "hd (samples l) = data l ! 0"
    using assms ne by (auto simp: samples_def hd_conv_nth)
qed

lemma decimation_unfold:
  assumes n1: "s1 \<noteq> NULL" and n2: "s2 \<noteq> NULL"
    and l1: "list_at h s1 = Some l1" and l2: "list_at h s2 = Some l2"
    and w1: "len l1 \<le> length (data l1)" and w2: "len l2 \<le> length (data l2)"
    and b1: "len l1 \<le> N" and b2: "len l2 \<le> N" and big: "N < len l1 + len l2"
    and N2: "2 \<le> N" and N32: "N < 2 ^ 32"
    and st: "start = min (uptime (data l1 ! 0)) (uptime (data l2 ! 0))"
    and en: "end_uptime = max (uptime (data l1 ! (len l1 - 1))) (uptime (data l2 ! (len l2 - 1)))"
    and bp: "bp = (end_uptime - start) div (of_nat N - 1)"
    and lp: "lp = (end_uptime - start) mod (of_nat N - 1)"
  shows "\<exists>p c rest q1 q2 it2.
           chrono_merge (samples l1) (samples l2) = p # c # rest
         \<and> sample_at h (Some q1) = Some p \<and> sample_at h (Some q2) = Some c
         \<and> iter_yields h it2 rest
         \<and> (\<forall>dest. dest \<noteq> NULL \<longrightarrow>
               merge_with_decimation N h s1 s2 dest =
                 merge_with_decimation_loop N h dest bp lp it2 (Some q1) (Some q2) [] start)"
proof -
  have e1: "len l1 \<noteq> 0" and e2: "len l2 \<noteq> 0" using b1 b2 big by auto
  let ?zs = "chrono_merge (samples l1) (samples l2)"
  have lz: "length ?zs = len l1 + len l2"
    using w1 w2 by (simp add: length_chrono_merge samples_def)
  then have "3 \<le> length ?zs" using big N2 by simp
  then obtain p c rest where zs: "?zs = p # c # rest"
    by (cases ?zs; cases "tl ?zs") auto
  from init_yields [OF l1 l2 w1 w2, of uninit_iterator] obtain it0 where
    it0: "init_merge_iterator h uninit_iterator s1 s2 = Some it0"
    and y0: "iter_yields h it0 (p # c # rest)"
    unfolding zs by blast
  from iter_yields_Cons [OF y0, of None] obtain it1 q1 where
    st1: "merge_iterate h it0 None = Some (E_SUCCESS, Some q1, it1)"
    and p: "sample_at h (Some q1) = Some p" and y1: "iter_yields h it1 (c # rest)"
    by blast
  from iter_yields_Cons [OF y1, of None] obtain it2 q2 where
    st2: "merge_iterate h it1 None = Some (E_SUCCESS, Some q2, it2)"
    and c: "sample_at h (Some q2) = Some c" and y2: "iter_yields h it2 rest"
    by blast
  have r10: "array_read (data l1) 0 = Some (data l1 ! 0)"
    using e1 w1 by (auto simp: array_read_def)
  have r20: "array_read (data l2) 0 = Some (data l2 ! 0)"
    using e2 w2 by (auto simp: array_read_def)
  have r11: "array_read (data l1) (len l1 - 1) = Some (data l1 ! (len l1 - 1))"
    using e1 w1 by (auto simp: array_read_def)
  have r21: "array_read (data l2) (len l2 - 1) = Some (data l2 ! (len l2 - 1))"
    using e2 w2 by (auto simp: array_read_def)
  have "unat (of_nat N - 1 :: 32 word) = N - 1"
    using N2 N32 by (intro unat_divisor) simp_all
  then have "unat (of_nat N - 1 :: 32 word) \<noteq> 0" using N2 by simp
  then have dv: "(of_nat N - 1 :: 32 word) \<noteq> 0" by (metis unat_0)
  have unf: "merge_with_decimation N h s1 s2 dest =
               merge_with_decimation_loop N h dest bp lp it2 (Some q1) (Some q2) [] start"
    if "dest \<noteq> NULL" for dest
    unfolding merge_with_decimation_def bp lp st en
    using n1 n2 that e1 e2 dv
    by (simp only: l1 l2 r10 r20 r11 r21 it0 st1 st2 Let_def option.case prod.case
        if_False simp_thms)
  show ?thesis using zs p c y2 unf by blast
qed

lemma decimation_run:
  assumes n1: "s1 \<noteq> NULL" and n2: "s2 \<noteq> NULL"
    and l1: "list_at h s1 = Some l1" and l2: "list_at h s2 = Some l2"
    and w1: "len l1 \<le> length (data l1)" and w2: "len l2 \<le> length (data l2)"
    and b1: "len l1 \<le> N" and b2: "len l2 \<le> N" and big: "N < len l1 + len l2"
    and N2: "2 \<le> N" and N32: "N < 2 ^ 32"
    and so1: "sorted (map uptime (samples l1))" and so2: "sorted (map uptime (samples l2))"
    and st: "start = min (uptime (data l1 ! 0)) (uptime (data l2 ! 0))"
    and en: "end_uptime = max (uptime (data l1 ! (len l1 - 1))) (uptime (data l2 ! (len l2 - 1)))"
    and bp: "bp = (end_uptime - start) div (of_nat N - 1)"
    and lp: "lp = (end_uptime - start) mod (of_nat N - 1)"
  shows "start \<le> end_uptime
       \<and> (\<exists>out. length out = N
             \<and> (\<forall>j<N. uptime (out ! j) = target_uptime start bp lp j)
             \<and> (\<forall>dest d. dest \<noteq> NULL \<longrightarrow> list_at h dest = Some d \<longrightarrow> N \<le> length (data d) \<longrightarrow>
                   merge_with_decimation N h s1 s2 dest =
                     Some (E_SUCCESS, h(dest \<mapsto> d\<lparr>data := out @ drop N (data d), len := N\<rparr>))))"
proof -
  have e1: "len l1 \<noteq> 0" and e2: "len l2 \<noteq> 0" using b1 b2 big by auto
  let ?xs = "samples l1" and ?ys = "samples l2"
  let ?zs = "chrono_merge ?xs ?ys"
  note s1 = last_samples [OF e1 w1] and s2 = last_samples [OF e2 w2]
  obtain x xs' where xs: "?xs = x # xs'" using s1(2) by (cases ?xs) auto
  obtain y ys' where ys: "?ys = y # ys'" using s2(2) by (cases ?ys) auto
  have x: "x = data l1 ! 0" using s1(3) xs by simp
  have y: "y = data l2 ! 0" using s2(3) ys by simp
  from decimation_unfold [OF n1 n2 l1 l2 w1 w2 b1 b2 big N2 N32 st en bp lp]
  obtain p c rest q1 q2 it2 where zs: "?zs = p # c # rest"
    and p: "sample_at h (Some q1) = Some p" and c: "sample_at h (Some q2) = Some c"
    and y2: "iter_yields h it2 rest"
    and unf: "\<forall>dest. dest \<noteq> NULL \<longrightarrow>
               merge_with_decimation N h s1 s2 dest =
                 merge_with_decimation_loop N h dest bp lp it2 (Some q1) (Some q2) [] start"
    by blast
  have srt: "sorted (map uptime (p # c # rest))"
    using sorted_chrono_merge [OF so1 so2] zs by simp
  have "uptime (hd ?zs) = start"
    unfolding xs ys hd_chrono_merge st x y ..
  then have up: "uptime p = start" using zs by simp
  have "uptime (last ?zs) = end_uptime"
    using last_chrono_merge [OF so1 so2 s1(2) s2(2)] s1(1) s2(1) en by simp
  then have ul: "uptime (last (c # rest)) = end_uptime" using zs by simp
  have "last (c # rest) \<in> set (c # rest)" by (rule last_in_set) simp
  then have "uptime p \<le> uptime (last (c # rest))"
    using srt by (auto simp del: last.simps)
  then have se: "start \<le> end_uptime" using up ul by simp
  have t0: "start = target_uptime start bp lp (length ([] :: temperature_sample_t list))"
    by (simp add: target_uptime_0)
  have bnd: "\<forall>j<N. target_uptime start bp lp j \<le> uptime (last (c # rest))"
    unfolding ul bp lp using target_uptime_le_end [OF se N2 N32] by blast
  have mono: "\<forall>j. Suc j < N \<longrightarrow> target_uptime start bp lp j \<le> target_uptime start bp lp (Suc j)"
    unfolding bp lp using target_uptime_mono [OF se N2 N32] by blast
  have low: "length ([] :: temperature_sample_t list) < N \<longrightarrow> uptime p \<le> start"
    using up by simp
  from dec_loop [OF y2 p c _ srt t0 bnd mono low]
  obtain out where lo: "length out = N"
    and tg: "\<forall>j<N. uptime (out ! j) = target_uptime start bp lp j"
    and run: "\<forall>dest d. list_at h dest = Some d \<longrightarrow> N \<le> length (data d) \<longrightarrow>
                merge_with_decimation_loop N h dest bp lp it2 (Some q1) (Some q2) [] start =
                  Some (E_SUCCESS, h(dest \<mapsto> d\<lparr>data := out @ drop N (data d), len := N\<rparr>))"
    by auto
  show ?thesis
    using se lo tg run unf by (intro conjI exI [of _ out]) simp_all
qed

section \<open>Decimation\<close>

lemma samples_out:
  "length out = N \<Longrightarrow> samples (d\<lparr>data := out @ rest, len := N\<rparr>) = out"
  by (simp add: samples_def)

text \<open>
  C2. Let \<open>2 \<le> N\<close> (the loop divides by \<open>N - 1\<close>). For two lists whose valid entries
  are non-decreasing in timestamp, with both lengths at most \<open>N\<close> and their sum above
  \<open>N\<close>, \<^verbatim>\<open>merge_temperature_lists\<close> takes the path of \<^verbatim>\<open>merge_with_decimation\<close> and returns
  \<open>E_SUCCESS\<close>. The destination then has length \<open>N\<close>; its first timestamp is the smaller
  of the two first timestamps, its last one the larger of the two last timestamps; the
  timestamps are non-decreasing; and entry \<open>j\<close> has the timestamp
  \<open>start + j * base_period + min j remainder\<close>, that is, consecutive timestamps differ by
  \<open>base_period\<close>, plus one for the first \<open>remainder\<close> intervals.
\<close>

theorem decimation_shape:
  assumes "s1 \<noteq> NULL" and "s2 \<noteq> NULL" and "dest \<noteq> NULL"
    and "list_at h s1 = Some l1" and "list_at h s2 = Some l2" and "list_at h dest = Some d"
    and "length (data l1) = N" and "length (data l2) = N" and "length (data d) = N"
    and "len l1 \<le> N" and "len l2 \<le> N" and "N < len l1 + len l2"
    and "2 \<le> N" and "N < 2 ^ 32"
    and "sorted (map uptime (samples l1))" and "sorted (map uptime (samples l2))"
    and "start = min (uptime (data l1 ! 0)) (uptime (data l2 ! 0))"
    and "end_uptime = max (uptime (data l1 ! (len l1 - 1))) (uptime (data l2 ! (len l2 - 1)))"
    and "base_period = (unat end_uptime - unat start) div (N - 1)"
    and "remainder = (unat end_uptime - unat start) mod (N - 1)"
  shows "\<exists>d'. merge_temperature_lists N h s1 s2 dest = Some (E_SUCCESS, h(dest \<mapsto> d'))
            \<and> merge_temperature_lists N h s1 s2 dest = merge_with_decimation N h s1 s2 dest
            \<and> len d' = N \<and> length (data d') = N
            \<and> uptime (data d' ! 0) = start
            \<and> uptime (data d' ! (N - 1)) = end_uptime
            \<and> sorted (map uptime (samples d'))
            \<and> (\<forall>j<N. unat (uptime (data d' ! j))
                      = unat start + j * base_period + min j remainder)"
proof -
  let ?bp = "(end_uptime - start) div (of_nat N - 1)"
  let ?lp = "(end_uptime - start) mod (of_nat N - 1)"
  have w1: "len l1 \<le> length (data l1)" and w2: "len l2 \<le> length (data l2)"
    using assms by simp_all
  from decimation_run [OF assms(1,2,4,5) w1 w2 assms(10-18) refl refl]
  obtain out where se: "start \<le> end_uptime" and lo: "length out = N"
    and tg: "\<forall>j<N. uptime (out ! j) = target_uptime start ?bp ?lp j"
    and run: "\<forall>dest d. dest \<noteq> NULL \<longrightarrow> list_at h dest = Some d \<longrightarrow> N \<le> length (data d) \<longrightarrow>
                merge_with_decimation N h s1 s2 dest =
                  Some (E_SUCCESS, h(dest \<mapsto> d\<lparr>data := out @ drop N (data d), len := N\<rparr>))"
    by blast
  let ?d' = "d\<lparr>data := out @ drop N (data d), len := N\<rparr>"
  have disp: "merge_temperature_lists N h s1 s2 dest = merge_with_decimation N h s1 s2 dest"
    using assms(1-6,12) by (simp add: merge_temperature_lists_def)
  have r: "merge_with_decimation N h s1 s2 dest = Some (E_SUCCESS, h(dest \<mapsto> ?d'))"
    using run assms(3,6,9) by simp
  have nth: "data ?d' ! j = out ! j" if "j < N" for j
    using that lo by (simp add: nth_append)
  have val: "unat (uptime (out ! j)) = unat start + j * base_period + min j remainder"
    if "j < N" for j
    using tg that target_uptime_unat(1) [OF se assms(13,14) that] assms(19,20) by simp
  have "0 < N" using assms(13) by simp
  then have first: "uptime (out ! 0) = start"
    using tg by (simp add: target_uptime_0)
  have "N - 1 < N" using assms(13) by simp
  then have lst: "uptime (out ! (N - 1)) = end_uptime"
    using tg target_uptime_last [OF se assms(13,14)] by simp
  have "uptime (out ! j) \<le> uptime (out ! Suc j)" if "Suc j < N" for j
    using tg that target_uptime_mono [OF se assms(13,14) that] by simp
  then have "sorted (map uptime out)"
    using lo by (simp add: sorted_iff_nth_Suc)
  then have srt: "sorted (map uptime (samples ?d'))"
    using samples_out [OF lo] by simp
  have p1: "len ?d' = N" by simp
  have p2: "length (data ?d') = N" using lo assms(9) by simp
  have p3: "uptime (data ?d' ! 0) = start" using nth [OF \<open>0 < N\<close>] first by simp
  have p4: "uptime (data ?d' ! (N - 1)) = end_uptime" using nth [OF \<open>N - 1 < N\<close>] lst by simp
  have p5: "\<forall>j<N. unat (uptime (data ?d' ! j))
                      = unat start + j * base_period + min j remainder"
    using nth val by simp
  show ?thesis
    using disp r p1 p2 p3 p4 srt p5
    by (intro exI [of _ ?d']) (simp only: simp_thms)
qed

theorem decimation_shape_witness:
  "\<exists>d'. merge_temperature_lists 3 example_memory 1 2 3
             = Some (E_SUCCESS, example_memory(3 \<mapsto> d'))
       \<and> len d' = 3
       \<and> uptime (data d' ! 0) = 10 \<and> uptime (data d' ! 2) = 50
       \<and> unat (uptime (data d' ! 1)) = 30"
proof -
  have f: "(10 :: 32 word) = min (uptime (data example_src1 ! 0)) (uptime (data example_src2 ! 0))"
    "(50 :: 32 word) = max (uptime (data example_src1 ! (len example_src1 - 1)))
                          (uptime (data example_src2 ! (len example_src2 - 1)))"
    by (simp_all add: example_src1_def example_src2_def)
  have g: "(20::nat) = (unat (50 :: 32 word) - unat (10 :: 32 word)) div (3 - 1)"
    "(0::nat) = (unat (50 :: 32 word) - unat (10 :: 32 word)) mod (3 - 1)"
    by simp_all
  from decimation_shape [OF example_pointers(1-3) example_lists(1-3) example_extents(1-3)
      example_lengths(1,2,4) example_size example_sorted(1,2) f g]
  obtain d' where
    r: "merge_temperature_lists 3 example_memory 1 2 3
          = Some (E_SUCCESS, example_memory(3 \<mapsto> d'))"
    and l: "len d' = 3" "uptime (data d' ! 0) = 10"  "uptime (data d' ! (3 - 1)) = 50"
    and u: "\<forall>j<3. unat (uptime (data d' ! j)) = unat (10 :: 32 word) + j * 20 + min j 0"
    by blast
  have "unat (uptime (data d' ! 1)) = 30"
    using u by simp
  then show ?thesis using r l by auto
qed


section \<open>Aliasing of the destination\<close>

text \<open>
  C8. Both merge functions read the sources through the iterator, write into the local
  array \<^verbatim>\<open>merged\<close> and copy it to the destination after the last read. So, for lists that
  satisfy the length and order invariants, the call whose destination is \<open>s2\<close> (or \<open>s1\<close>)
  returns the same code and leaves in that list the same length and the same valid
  entries as the call whose destination is a separate list \<open>dest\<close> leaves there.
\<close>

theorem merge_alias_safe:
  assumes "s1 \<noteq> NULL" and "s2 \<noteq> NULL" and "dest \<noteq> NULL"
    and "list_at h s1 = Some l1" and "list_at h s2 = Some l2" and "list_at h dest = Some d"
    and "dest \<noteq> s1" and "dest \<noteq> s2"
    and "length (data l1) = N" and "length (data l2) = N" and "length (data d) = N"
    and "len l1 \<le> N" and "len l2 \<le> N"
    and "2 \<le> N" and "N < 2 ^ 32"
    and "sorted (map uptime (samples l1))" and "sorted (map uptime (samples l2))"
  shows "\<exists>e f a2 a1.
           merge_temperature_lists N h s1 s2 dest = Some (e, h(dest \<mapsto> f))
         \<and> merge_temperature_lists N h s1 s2 s2 = Some (e, h(s2 \<mapsto> a2))
         \<and> merge_temperature_lists N h s1 s2 s1 = Some (e, h(s1 \<mapsto> a1))
         \<and> len a2 = len f \<and> samples a2 = samples f
         \<and> len a1 = len f \<and> samples a1 = samples f"
proof -
  have w1: "len l1 \<le> length (data l1)" and w2: "len l2 \<le> length (data l2)"
    and x1: "N \<le> length (data l1)" and x2: "N \<le> length (data l2)" and xd: "N \<le> length (data d)"
    using assms by simp_all
  show ?thesis
  proof (cases "len l1 + len l2 \<le> N")
    case True
    let ?zs = "chrono_merge (samples l1) (samples l2)"
    let ?n = "len l1 + len l2"
    have lz: "length ?zs = ?n"
      using w1 w2 by (simp add: length_chrono_merge samples_def)
    have disp: "merge_temperature_lists N h s1 s2 p = merge_without_decimation N h s1 s2 p"
      if "p \<noteq> NULL" for p
      using assms(1,2,4,5) that True by (simp add: merge_temperature_lists_def)
    let ?f = "d\<lparr>data := ?zs @ drop ?n (data d), len := ?n\<rparr>"
    let ?a2 = "l2\<lparr>data := ?zs @ drop ?n (data l2), len := ?n\<rparr>"
    let ?a1 = "l1\<lparr>data := ?zs @ drop ?n (data l1), len := ?n\<rparr>"
    have rd: "merge_temperature_lists N h s1 s2 dest = Some (E_SUCCESS, h(dest \<mapsto> ?f))"
      unfolding disp [OF assms(3)]
      using assms(1,2,3,4,5,6) w1 w2 True xd by (rule exact_run)
    have r2: "merge_temperature_lists N h s1 s2 s2 = Some (E_SUCCESS, h(s2 \<mapsto> ?a2))"
      unfolding disp [OF assms(2)]
      using assms(1,2,2,4,5,5) w1 w2 True x2 by (rule exact_run)
    have r1: "merge_temperature_lists N h s1 s2 s1 = Some (E_SUCCESS, h(s1 \<mapsto> ?a1))"
      unfolding disp [OF assms(1)]
      using assms(1,2,1,4,5,4) w1 w2 True x1 by (rule exact_run)
    have "samples ?f = ?zs" "samples ?a2 = ?zs" "samples ?a1 = ?zs"
      using lz by (simp_all add: samples_def)
    then have "len ?a2 = len ?f \<and> samples ?a2 = samples ?f
             \<and> len ?a1 = len ?f \<and> samples ?a1 = samples ?f"
      by simp
    then show ?thesis using rd r2 r1 by blast
  next
    case False
    then have big: "N < len l1 + len l2" by simp
    have disp: "merge_temperature_lists N h s1 s2 p = merge_with_decimation N h s1 s2 p"
      if "p \<noteq> NULL" for p
      using assms(1,2,4,5) that False by (simp add: merge_temperature_lists_def)
    from decimation_run [OF assms(1,2,4,5) w1 w2 assms(12,13) big assms(14-17) refl refl refl refl]
    obtain out where lo: "length out = N"
      and run: "\<forall>dest d. dest \<noteq> NULL \<longrightarrow> list_at h dest = Some d \<longrightarrow> N \<le> length (data d) \<longrightarrow>
                  merge_with_decimation N h s1 s2 dest =
                    Some (E_SUCCESS, h(dest \<mapsto> d\<lparr>data := out @ drop N (data d), len := N\<rparr>))"
      by blast
    let ?f = "d\<lparr>data := out @ drop N (data d), len := N\<rparr>"
    let ?a2 = "l2\<lparr>data := out @ drop N (data l2), len := N\<rparr>"
    let ?a1 = "l1\<lparr>data := out @ drop N (data l1), len := N\<rparr>"
    have rd: "merge_temperature_lists N h s1 s2 dest = Some (E_SUCCESS, h(dest \<mapsto> ?f))"
      unfolding disp [OF assms(3)] using run assms(3,6) xd by blast
    have r2: "merge_temperature_lists N h s1 s2 s2 = Some (E_SUCCESS, h(s2 \<mapsto> ?a2))"
      unfolding disp [OF assms(2)] using run assms(2,5) x2 by blast
    have r1: "merge_temperature_lists N h s1 s2 s1 = Some (E_SUCCESS, h(s1 \<mapsto> ?a1))"
      unfolding disp [OF assms(1)] using run assms(1,4) x1 by blast
    have "samples ?f = out" "samples ?a2 = out" "samples ?a1 = out"
      using lo by (simp_all add: samples_def)
    then have "len ?a2 = len ?f \<and> samples ?a2 = samples ?f
             \<and> len ?a1 = len ?f \<and> samples ?a1 = samples ?f"
      by simp
    then show ?thesis using rd r2 r1 by blast
  qed
qed

theorem merge_alias_safe_witness:
  "\<exists>e f a2 a1.
       merge_temperature_lists 3 example_memory 1 2 3 = Some (e, example_memory(3 \<mapsto> f))
     \<and> merge_temperature_lists 3 example_memory 1 2 2 = Some (e, example_memory(2 \<mapsto> a2))
     \<and> merge_temperature_lists 3 example_memory 1 2 1 = Some (e, example_memory(1 \<mapsto> a1))
     \<and> len a2 = len f \<and> samples a2 = samples f
     \<and> len a1 = len f \<and> samples a1 = samples f"
proof -
  have ne: "(3::nat) \<noteq> 1" "(3::nat) \<noteq> 2" by simp_all
  show ?thesis
    by (rule merge_alias_safe [OF example_pointers(1-3) example_lists(1-3) ne example_extents(1-3)
          example_lengths(1,2) example_size example_sorted(1,2)])
qed


section \<open>Result codes\<close>

lemma drain_loop_code:
  assumes "merge_without_decimation_loop N h dest it s merged = Some y"
  shows "fst y = E_SUCCESS \<or> fst y = E_ERROR"
proof (rule merge_without_decimation_loop.raw_induct
    [where P = "\<lambda>N h dest it s merged y. fst y = E_SUCCESS \<or> fst y = E_ERROR", OF _ assms],
    goal_cases)
  case (1 loop N h dest iterator sample merged y)
  then show ?case
    by (cases y) (fastforce split: option.splits if_splits prod.splits)
qed

lemma dec_loop_code:
  assumes "merge_with_decimation_loop N h dest bp lp it prev cur merged t = Some y"
  shows "fst y = E_SUCCESS \<or> fst y = E_ERROR"
proof (rule merge_with_decimation_loop.raw_induct
    [where P = "\<lambda>N h dest bp lp it prev cur merged t y. fst y = E_SUCCESS \<or> fst y = E_ERROR",
     OF _ assms],
    goal_cases)
  case (1 loop N h dest bp lp it prev cur merged t y)
  then show ?case
    by (cases y) (fastforce simp: Let_def split: option.splits if_splits prod.splits)
qed


lemma drain_exhausted:
  assumes "current_list it = NULL"
  shows "merge_iterate h it s = Some (E_END_OF_ITER, s, it)"
    and "merge_without_decimation_loop N h dest it s merged =
           (case copy_to_dest h dest merged of None \<Rightarrow> None | Some h' \<Rightarrow> Some (E_SUCCESS, h'))"
proof -
  show a: "merge_iterate h it s = Some (E_END_OF_ITER, s, it)"
    using assms by (simp add: merge_iterate_def)
  show "merge_without_decimation_loop N h dest it s merged =
           (case copy_to_dest h dest merged of None \<Rightarrow> None | Some h' \<Rightarrow> Some (E_SUCCESS, h'))"
    by (subst merge_without_decimation_loop.simps) (simp add: a)
qed

text \<open>
  C5. For non-null lists that satisfy the length and order invariants,
  \<^verbatim>\<open>merge_temperature_lists\<close> returns \<open>E_SUCCESS\<close> on either path, hence never
  \<open>E_END_OF_ITER\<close>. In the loop of \<^verbatim>\<open>merge_without_decimation\<close> an exhausted iterator makes
  \<^verbatim>\<open>merge_iterate\<close> return \<open>E_END_OF_ITER\<close>, and the loop then copies the drained samples
  to the destination and returns \<open>E_SUCCESS\<close>.
\<close>

theorem end_of_iteration_consumed:
  assumes "s1 \<noteq> NULL" and "s2 \<noteq> NULL" and "dest \<noteq> NULL"
    and "list_at h s1 = Some l1" and "list_at h s2 = Some l2" and "list_at h dest = Some d"
    and "length (data l1) = N" and "length (data l2) = N" and "length (data d) = N"
    and "len l1 \<le> N" and "len l2 \<le> N"
    and "2 \<le> N" and "N < 2 ^ 32"
    and "sorted (map uptime (samples l1))" and "sorted (map uptime (samples l2))"
  shows "(\<exists>h'. merge_temperature_lists N h s1 s2 dest = Some (E_SUCCESS, h'))
       \<and> (\<forall>y. merge_temperature_lists N h s1 s2 dest = Some y \<longrightarrow> fst y \<noteq> E_END_OF_ITER)
       \<and> (\<forall>it s merged. current_list it = NULL \<longrightarrow> length merged \<le> N \<longrightarrow>
             merge_iterate h it s = Some (E_END_OF_ITER, s, it)
           \<and> merge_without_decimation_loop N h dest it s merged =
               Some (E_SUCCESS, h(dest \<mapsto> d\<lparr>data := merged @ drop (length merged) (data d),
                                            len := length merged\<rparr>)))"
proof -
  have w1: "len l1 \<le> length (data l1)" and w2: "len l2 \<le> length (data l2)"
    and xd: "N \<le> length (data d)"
    using assms by simp_all
  have ret: "\<exists>h'. merge_temperature_lists N h s1 s2 dest = Some (E_SUCCESS, h')"
  proof (cases "len l1 + len l2 \<le> N")
    case True
    have "merge_temperature_lists N h s1 s2 dest = merge_without_decimation N h s1 s2 dest"
      using assms(1-5) True by (simp add: merge_temperature_lists_def)
    then show ?thesis
      using exact_run [OF assms(1-6) w1 w2 True xd] by simp
  next
    case False
    then have big: "N < len l1 + len l2" by simp
    have "merge_temperature_lists N h s1 s2 dest = merge_with_decimation N h s1 s2 dest"
      using assms(1-5) False by (simp add: merge_temperature_lists_def)
    moreover
    from decimation_run [OF assms(1,2,4,5) w1 w2 assms(10,11) big assms(12-15) refl refl refl refl]
    have "\<exists>h'. merge_with_decimation N h s1 s2 dest = Some (E_SUCCESS, h')"
      using assms(3,6) xd by blast
    ultimately show ?thesis by simp
  qed
  then have leak: "\<forall>y. merge_temperature_lists N h s1 s2 dest = Some y \<longrightarrow> fst y \<noteq> E_END_OF_ITER"
    by auto
  have conv: "merge_iterate h it s = Some (E_END_OF_ITER, s, it)
           \<and> merge_without_decimation_loop N h dest it s merged =
               Some (E_SUCCESS, h(dest \<mapsto> d\<lparr>data := merged @ drop (length merged) (data d),
                                            len := length merged\<rparr>))"
    if "current_list it = NULL" and "length merged \<le> N" for it s merged
    using drain_exhausted(1) [OF that(1), where h = h and s = s]
      drain_exhausted(2) [OF that(1), where h = h and s = s and N = N and dest = dest
        and merged = merged]
      copy_to_dest_full [OF assms(6), of merged] that(2) xd
    by simp
  show ?thesis using ret leak conv by blast
qed

theorem end_of_iteration_consumed_witness:
  "(\<exists>h'. merge_temperature_lists 3 example_memory 1 4 3 = Some (E_SUCCESS, h'))
   \<and> (\<exists>h'. merge_temperature_lists 3 example_memory 1 2 3 = Some (E_SUCCESS, h'))
   \<and> merge_iterate example_memory uninit_iterator None = Some (E_END_OF_ITER, None, uninit_iterator)
   \<and> merge_without_decimation_loop 3 example_memory 3 uninit_iterator None []
        = Some (E_SUCCESS, example_memory(3 \<mapsto> example_dest))"
proof -
  have a: "current_list uninit_iterator = NULL" "length ([] :: temperature_sample_t list) \<le> 3"
    by (simp_all add: uninit_iterator_def)
  note t1 = end_of_iteration_consumed [OF example_pointers(1,4,3) example_lists(1,4,3)
        example_extents(1,4,3) example_lengths(1,3) example_size example_sorted(1,3)]
  note t2 = end_of_iteration_consumed [OF example_pointers(1-3) example_lists(1-3)
        example_extents(1-3) example_lengths(1,2) example_size example_sorted(1,2)]
  have r1: "\<exists>h'. merge_temperature_lists 3 example_memory 1 4 3 = Some (E_SUCCESS, h')"
    using t1 by (rule conjunct1)
  have r2: "\<exists>h'. merge_temperature_lists 3 example_memory 1 2 3 = Some (E_SUCCESS, h')"
    using t2 by (rule conjunct1)
  have "merge_iterate example_memory uninit_iterator None
          = Some (E_END_OF_ITER, None, uninit_iterator)
      \<and> merge_without_decimation_loop 3 example_memory 3 uninit_iterator None []
          = Some (E_SUCCESS, example_memory(3 \<mapsto> example_dest
               \<lparr>data := [] @ drop (length ([] :: temperature_sample_t list)) (data example_dest),
                len := length ([] :: temperature_sample_t list)\<rparr>))"
    using t2 a by blast
  moreover have "example_dest
               \<lparr>data := [] @ drop (length ([] :: temperature_sample_t list)) (data example_dest),
                len := length ([] :: temperature_sample_t list)\<rparr> = example_dest"
    by (simp add: example_dest_def)
  ultimately show ?thesis using r1 r2 by simp
qed

text \<open>Whatever the input, a call that returns yields one of three codes, none of them
  \<open>E_END_OF_ITER\<close>.\<close>

lemma merge_code:
  assumes "merge_temperature_lists N h s1 s2 dest = Some y"
  shows "fst y = E_SUCCESS \<or> fst y = E_ERROR \<or> fst y = E_NULL_PTR"
proof -
  have "fst y = E_SUCCESS \<or> fst y = E_ERROR \<or> fst y = E_NULL_PTR"
    if "merge_without_decimation N h s1 s2 dest = Some y"
    using that drain_loop_code [of N h dest _ None "[]" y]
    by (auto simp: merge_without_decimation_def split: if_splits option.splits)
  moreover have "fst y = E_SUCCESS \<or> fst y = E_ERROR \<or> fst y = E_NULL_PTR"
    if "merge_with_decimation N h s1 s2 dest = Some y"
    using that dec_loop_code [of N h dest _ _ _ _ _ "[]" _ y]
    by (auto simp: merge_with_decimation_def Let_def split: if_splits option.splits prod.splits)
  ultimately show ?thesis
    using assms
    by (auto simp: merge_temperature_lists_def split: if_splits option.splits)
qed

section \<open>Termination of the decimation loop\<close>

lemma dec_loop_returns:
  assumes "iter_yields h it rest"
    and "sample_at h prev = Some p" and "sample_at h cur = Some c"
    and "list_at h dest = Some d" and "N \<le> length (data d)" and "length merged \<le> N"
  shows "\<exists>e h'. merge_with_decimation_loop N h dest bp lp it prev cur merged t = Some (e, h')"
  using assms
proof (induction "(N - length merged) + length rest"
    arbitrary: it prev cur p c rest merged t rule: less_induct)
  case less
  note iy = less.prems(1) and pp = less.prems(2) and cc = less.prems(3)
    and dd = less.prems(4) and nd = less.prems(5) and lm = less.prems(6)
  show ?case
  proof (cases "length merged < N")
    case False
    then have "length merged = N" using lm by simp
    then show ?thesis
      using False copy_to_dest_full [OF dd, of merged] nd
      by (subst merge_with_decimation_loop.simps) simp
  next
    case True
    have shift: "\<exists>e h'. merge_with_decimation_loop N h dest bp lp it prev cur merged t = Some (e, h')"
      if out: "\<not> (uptime p \<le> t \<and> t \<le> uptime c)"
    proof (cases rest)
      case Nil
      then have "merge_iterate h it cur = Some (E_END_OF_ITER, cur, it)"
        using iy by (simp add: iter_yields_Nil)
      then show ?thesis
        using True pp cc out
        by (subst merge_with_decimation_loop.simps) auto
    next
      case (Cons z rest')
      from iter_yields_Cons [OF iy [unfolded Cons], of cur] obtain it' where
        step: "merge_iterate h it cur
                 = Some (E_SUCCESS, Some (current_list it, current_index it), it')"
        and zz: "sample_at h (Some (current_list it, current_index it)) = Some z"
        and iy': "iter_yields h it' rest'"
        by blast
      have unf: "merge_with_decimation_loop N h dest bp lp it prev cur merged t =
                 merge_with_decimation_loop N h dest bp lp it' cur
                   (Some (current_list it, current_index it)) merged t"
        using True pp cc out step
        by (subst merge_with_decimation_loop.simps) auto
      have meas: "(N - length merged) + length rest' < (N - length merged) + length rest"
        using Cons by simp
      from less.hyps [OF meas iy' cc zz dd nd lm]
      show ?thesis unfolding unf .
    qed
    show ?thesis
    proof (cases "uptime p \<le> t \<and> t \<le> uptime c")
      case emit: True
      let ?merged' = "merged @ [interpolate p c t]"
      let ?t' = "t + (bp + (if length ?merged' \<le> unat lp then 1 else 0))"
      have unf: "merge_with_decimation_loop N h dest bp lp it prev cur merged t =
                 merge_with_decimation_loop N h dest bp lp it prev cur ?merged' ?t'"
        using True pp cc emit
        by (subst merge_with_decimation_loop.simps) (simp add: Let_def)
      have meas: "(N - length ?merged') + length rest < (N - length merged) + length rest"
        using True by simp
      from less.hyps [OF meas iy pp cc dd nd] True
      show ?thesis unfolding unf by simp
    next
      case False
      then show ?thesis by (rule shift)
    qed
  qed
qed

lemma dec_loop_exhausted:
  assumes "current_list it = NULL" and "length merged < N"
    and "sample_at h prev = Some p" and "sample_at h cur = Some c"
    and "\<not> (uptime p \<le> t \<and> t \<le> uptime c)"
  shows "merge_with_decimation_loop N h dest bp lp it prev cur merged t = Some (E_ERROR, h)"
proof -
  have "merge_iterate h it cur = Some (E_END_OF_ITER, cur, it)"
    using assms(1) by (simp add: merge_iterate_def)
  then show ?thesis
    using assms(2-5)
    by (subst merge_with_decimation_loop.simps) auto
qed

text \<open>
  C10. For two lists with lengths at most \<open>N\<close> whose sum exceeds \<open>N\<close>,
  \<^verbatim>\<open>merge_with_decimation\<close> returns, with \<open>E_SUCCESS\<close> or \<open>E_ERROR\<close>, and with \<open>E_SUCCESS\<close>
  when the lists are non-decreasing in timestamp: every iteration of its loop
  either appends one of at most \<open>N\<close> samples to \<open>merged\<close> or takes one of the samples
  that the iterator has left, and the sum of the two counts decreases. Once the
  iterator is exhausted, \<^verbatim>\<open>merge_iterate\<close> returns \<open>E_END_OF_ITER\<close> and an iteration that has
  to advance returns \<open>E_ERROR\<close>.
\<close>

theorem decimation_terminates:
  assumes "s1 \<noteq> NULL" and "s2 \<noteq> NULL" and "dest \<noteq> NULL"
    and "list_at h s1 = Some l1" and "list_at h s2 = Some l2" and "list_at h dest = Some d"
    and "length (data l1) = N" and "length (data l2) = N" and "length (data d) = N"
    and "len l1 \<le> N" and "len l2 \<le> N" and "N < len l1 + len l2"
    and "2 \<le> N" and "N < 2 ^ 32"
  shows "(\<exists>e h'. merge_with_decimation N h s1 s2 dest = Some (e, h')
                \<and> (e = E_SUCCESS \<or> e = E_ERROR))
       \<and> (sorted (map uptime (samples l1)) \<and> sorted (map uptime (samples l2)) \<longrightarrow>
            (\<exists>h'. merge_with_decimation N h s1 s2 dest = Some (E_SUCCESS, h')))
       \<and> (\<forall>it s. current_list it = NULL \<longrightarrow>
             merge_iterate h it s = Some (E_END_OF_ITER, s, it))
       \<and> (\<forall>bp lp it prev cur merged t p c.
             current_list it = NULL \<and> length merged < N
             \<and> sample_at h prev = Some p \<and> sample_at h cur = Some c
             \<and> \<not> (uptime p \<le> t \<and> t \<le> uptime c) \<longrightarrow>
             merge_with_decimation_loop N h dest bp lp it prev cur merged t = Some (E_ERROR, h))"
proof -
  have w1: "len l1 \<le> length (data l1)" and w2: "len l2 \<le> length (data l2)"
    and xd: "N \<le> length (data d)"
    using assms by simp_all
  from decimation_unfold [OF assms(1,2,4,5) w1 w2 assms(10-14) refl refl refl refl]
  obtain p c rest q1 q2 it2 where
    p: "sample_at h (Some q1) = Some p" and c: "sample_at h (Some q2) = Some c"
    and y2: "iter_yields h it2 rest"
    and unf: "\<forall>dest. dest \<noteq> NULL \<longrightarrow>
               merge_with_decimation N h s1 s2 dest =
                 merge_with_decimation_loop N h dest
                   ((max (uptime (data l1 ! (len l1 - 1))) (uptime (data l2 ! (len l2 - 1)))
                      - min (uptime (data l1 ! 0)) (uptime (data l2 ! 0))) div (of_nat N - 1))
                   ((max (uptime (data l1 ! (len l1 - 1))) (uptime (data l2 ! (len l2 - 1)))
                      - min (uptime (data l1 ! 0)) (uptime (data l2 ! 0))) mod (of_nat N - 1))
                   it2 (Some q1) (Some q2) []
                   (min (uptime (data l1 ! 0)) (uptime (data l2 ! 0)))"
    by blast
  have "\<exists>e h'. merge_with_decimation N h s1 s2 dest = Some (e, h')"
    using dec_loop_returns [OF y2 p c assms(6) xd, of "[]"] unf assms(3) by simp
  then obtain e h' where r: "merge_with_decimation N h s1 s2 dest = Some (e, h')"
    by blast
  have "e = E_SUCCESS \<or> e = E_ERROR"
    using r unf assms(3) dec_loop_code [where y = "(e, h')" and N = N and h = h and dest = dest]
    by fastforce
  then have ret: "\<exists>e h'. merge_with_decimation N h s1 s2 dest = Some (e, h')
                \<and> (e = E_SUCCESS \<or> e = E_ERROR)"
    using r by blast
  have ok: "\<exists>h'. merge_with_decimation N h s1 s2 dest = Some (E_SUCCESS, h')"
    if "sorted (map uptime (samples l1))" and "sorted (map uptime (samples l2))"
    using decimation_run [OF assms(1,2,4,5) w1 w2 assms(10-14) that refl refl refl refl]
      assms(3,6) xd
    by blast
  have ex: "\<forall>it s. current_list it = NULL \<longrightarrow> merge_iterate h it s = Some (E_END_OF_ITER, s, it)"
    by (simp add: merge_iterate_def)
  show ?thesis
    using ret ok ex dec_loop_exhausted by blast
qed

theorem decimation_terminates_witness:
  "(\<exists>h'. merge_with_decimation 3 example_memory 1 2 3 = Some (E_SUCCESS, h'))
   \<and> merge_iterate example_memory uninit_iterator None
       = Some (E_END_OF_ITER, None, uninit_iterator)
   \<and> merge_with_decimation_loop 3 example_memory 3 0 0 uninit_iterator
        (Some (1, 0)) (Some (2, 0)) [] 30 = Some (E_ERROR, example_memory)"
proof -
  note t = decimation_terminates [OF example_pointers(1-3) example_lists(1-3)
      example_extents(1-3) example_lengths(1,2,4) example_size]
  have r: "\<exists>h'. merge_with_decimation 3 example_memory 1 2 3 = Some (E_SUCCESS, h')"
    using t example_sorted(1,2) by blast
  have a: "current_list uninit_iterator = NULL" by (simp add: uninit_iterator_def)
  have i: "merge_iterate example_memory uninit_iterator None
       = Some (E_END_OF_ITER, None, uninit_iterator)"
    using t a by blast
  have b: "current_list uninit_iterator = NULL \<and> length ([] :: temperature_sample_t list) < 3
      \<and> sample_at example_memory (Some (1, 0)) = Some \<lparr>temperature = 160, uptime = 10\<rparr>
      \<and> sample_at example_memory (Some (2, 0)) = Some \<lparr>temperature = 320, uptime = 20\<rparr>
      \<and> \<not> (uptime \<lparr>temperature = 160, uptime = 10\<rparr> \<le> (30 :: 32 word)
            \<and> (30 :: 32 word) \<le> uptime \<lparr>temperature = 320, uptime = 20\<rparr>)"
    by (simp add: uninit_iterator_def sample_at_def example_defs array_read_def)
  have "merge_with_decimation_loop 3 example_memory 3 0 0 uninit_iterator
        (Some (1, 0)) (Some (2, 0)) [] 30 = Some (E_ERROR, example_memory)"
    using t b by blast
  then show ?thesis using r i by blast
qed


section \<open>Rounding of small integers and of their quotients\<close>

lemma bitlen_abs_range:
  assumes "g \<noteq> 0" and "\<bar>g\<bar> < 2 ^ 24"
  shows "1 \<le> bitlen \<bar>g\<bar>" and "bitlen \<bar>g\<bar> \<le> 24"
proof -
  have "0 < \<bar>g\<bar>" using assms(1) by simp
  then show "1 \<le> bitlen \<bar>g\<bar>"
    using bitlen_eq_zero_iff [of "\<bar>g\<bar>"] bitlen_nonneg [of "\<bar>g\<bar>"] by linarith
  show "bitlen \<bar>g\<bar> \<le> 24"
    using assms(2) by (simp add: bitlen_le_iff_power)
qed

lemma f32_round_exact:
  assumes q: "0 < q" and g: "g \<noteq> 0" and small: "\<bar>g\<bar> < 2 ^ 24"
  shows "f32_round (g * q) q = f32_exact g"
proof -
  define b where "b = bitlen \<bar>g\<bar>"
  define bq where "bq = bitlen q"
  define a where "a = \<bar>g\<bar> * q"
  have b: "1 \<le> b" "b \<le> 24" unfolding b_def using bitlen_abs_range [OF g small] by simp_all
  have gpos: "0 < \<bar>g\<bar>" using g by simp
  have bq: "1 \<le> bq"
    unfolding bq_def using q bitlen_eq_zero_iff [of q] bitlen_nonneg [of q] by linarith
  have gb: "2 ^ nat (b - 1) \<le> \<bar>g\<bar>" "\<bar>g\<bar> < 2 ^ nat b"
    unfolding b_def using bitlen_bounds [OF gpos] by simp_all
  have qb: "2 ^ nat (bq - 1) \<le> q" "q < 2 ^ nat bq"
    unfolding bq_def using bitlen_bounds [OF q] by simp_all
  have apos: "0 < a" unfolding a_def using gpos q by simp
  have lo: "(2::int) ^ nat (b - 1 + bq - 1) \<le> a"
  proof -
    have "(2::int) ^ nat (b - 1 + bq - 1) = 2 ^ nat (b - 1) * 2 ^ nat (bq - 1)"
      using b bq by (simp add: nat_add_distrib power_add [symmetric])
    also have "\<dots> \<le> \<bar>g\<bar> * q"
      using gb(1) qb(1) by (intro mult_mono) simp_all
    finally show ?thesis by (simp add: a_def)
  qed
  have hi: "a < 2 ^ nat (b + bq)"
  proof -
    have "\<bar>g\<bar> * q < 2 ^ nat b * 2 ^ nat bq"
      using gb(2) qb(2) gpos q by (intro mult_strict_mono) simp_all
    also have "\<dots> = 2 ^ nat (b + bq)"
      using b bq by (simp add: nat_add_distrib power_add)
    finally show ?thesis by (simp add: a_def)
  qed
  have "nat (b - 1 + bq) - 1 = nat (b - 1 + bq - 1)" using b bq by simp
  then have d_lo: "b - 1 + bq \<le> bitlen a"
    using lo by (simp only: bitlen_ge_iff_power) simp
  have d_hi: "bitlen a \<le> b + bq"
    using hi b bq by (simp add: bitlen_le_iff_power)
  define d where "d = bitlen a - bq"
  have d: "d = b - 1 \<or> d = b" using d_lo d_hi by (auto simp: d_def)
  have dn: "0 \<le> d" using d b by auto
  have cond: "(q * 2 ^ nat d \<le> a * 2 ^ nat (- d)) \<longleftrightarrow> d = b - 1"
  proof -
    have "(q * 2 ^ nat d \<le> a * 2 ^ nat (- d)) \<longleftrightarrow> (q * 2 ^ nat d \<le> q * \<bar>g\<bar>)"
      using dn by (simp add: a_def mult.commute)
    also have "\<dots> \<longleftrightarrow> 2 ^ nat d \<le> \<bar>g\<bar>"
      using q by simp
    also have "\<dots> \<longleftrightarrow> d = b - 1"
      using d gb b by auto
    finally show ?thesis .
  qed
  define e where "e = (if q * 2 ^ nat d \<le> a * 2 ^ nat (- d) then d else d - 1)"
  have e: "e = b - 1" using cond d by (auto simp: e_def)
  define s where "s = 23 - e"
  have s: "s = 24 - b" "0 \<le> s" using e b by (simp_all add: s_def)
  have nums: "a * 2 ^ nat s = (\<bar>g\<bar> * 2 ^ nat s) * q" by (simp add: a_def)
  have den: "q * 2 ^ nat (- s) = q" using s(2) by simp
  have n: "(a * 2 ^ nat s) div (q * 2 ^ nat (- s)) = \<bar>g\<bar> * 2 ^ nat s"
    unfolding den nums using q by simp
  have r: "(a * 2 ^ nat s) mod (q * 2 ^ nat (- s)) = 0"
    unfolding den nums by simp
  have sg: "sgn (g * q) = sgn g" using q by (simp add: sgn_mult)
  have ne: "g * q \<noteq> 0" using g q by simp
  have ab: "\<bar>g * q\<bar> = a" using q by (simp add: a_def abs_mult)
  have unf: "f32_round (g * q) q =
      (sgn (g * q) *
         (if 2 * ((a * 2 ^ nat s) mod (q * 2 ^ nat (- s))) > q * 2 ^ nat (- s)
             \<or> (2 * ((a * 2 ^ nat s) mod (q * 2 ^ nat (- s))) = q * 2 ^ nat (- s)
                \<and> odd ((a * 2 ^ nat s) div (q * 2 ^ nat (- s))))
          then (a * 2 ^ nat s) div (q * 2 ^ nat (- s)) + 1
          else (a * 2 ^ nat s) div (q * 2 ^ nat (- s))),
       - s)"
    by (simp only: f32_round_def Let_def ne if_False ab s_def e_def d_def bq_def)
  have "f32_round (g * q) q = (sgn (g * q) * (\<bar>g\<bar> * 2 ^ nat s), - s)"
    unfolding unf n r unfolding den using q by simp
  also have "\<dots> = (g * 2 ^ nat (24 - b), b - 24)"
    unfolding sg using s(1) by (simp add: mult.assoc [symmetric] mult_sgn_abs)
  finally show ?thesis using g by (simp add: f32_exact_def b_def)
qed


lemma f32_round_0 [simp]: "f32_round 0 q = (0, 0)"
  by (simp add: f32_round_def)

lemma f32_exact_0 [simp]: "f32_exact 0 = (0, 0)"
  by (simp add: f32_exact_def)

lemma f32_of_int_exact:
  assumes "\<bar>g\<bar> < 2 ^ 24"
  shows "f32_of_int g = f32_exact g"
proof (cases "g = 0")
  case True
  then show ?thesis by (simp add: f32_of_int_def)
next
  case False
  then show ?thesis
    using f32_round_exact [of 1 g] assms by (simp add: f32_of_int_def)
qed

lemma f32_exact_parts:
  assumes "g \<noteq> 0" and "\<bar>g\<bar> < 2 ^ 24"
  shows "fst (f32_exact g) = g * 2 ^ nat (24 - bitlen \<bar>g\<bar>)"
    and "snd (f32_exact g) = - int (nat (24 - bitlen \<bar>g\<bar>))"
  using assms bitlen_abs_range [OF assms] by (simp_all add: f32_exact_def)

lemma f32_mul_exact:
  assumes "\<bar>i * j\<bar> < 2 ^ 24"
  shows "f32_mul (f32_exact i) (f32_exact j) = f32_exact (i * j)"
proof (cases "i = 0 \<or> j = 0")
  case True
  then show ?thesis
    by (auto simp: f32_mul_def Let_def)
next
  case False
  then have i: "i \<noteq> 0" and j: "j \<noteq> 0" by simp_all
  have "\<bar>i\<bar> * 1 \<le> \<bar>i\<bar> * \<bar>j\<bar>" using j by (intro mult_left_mono) simp_all
  then have "\<bar>i\<bar> \<le> \<bar>i * j\<bar>" by (simp only: abs_mult mult_1_right)
  then have si: "\<bar>i\<bar> < 2 ^ 24" using assms by (rule le_less_trans)
  have "1 * \<bar>j\<bar> \<le> \<bar>i\<bar> * \<bar>j\<bar>" using i by (intro mult_right_mono) simp_all
  then have "\<bar>j\<bar> \<le> \<bar>i * j\<bar>" by (simp only: abs_mult mult_1_left)
  then have sj: "\<bar>j\<bar> < 2 ^ 24" using assms by (rule le_less_trans)
  define a where "a = nat (24 - bitlen \<bar>i\<bar>)"
  define b where "b = nat (24 - bitlen \<bar>j\<bar>)"
  note pi = f32_exact_parts [OF i si, folded a_def]
  note pj = f32_exact_parts [OF j sj, folded b_def]
  have e: "nat (- int a + - int b) = 0" "nat (- (- int a + - int b)) = a + b"
    by simp_all
  have 1: "f32_mul (f32_exact i) (f32_exact j)
          = f32_round (i * 2 ^ a * (j * 2 ^ b) * 2 ^ 0) (2 ^ (a + b))"
    by (simp only: f32_mul_def Let_def pi pj e)
  have 2: "i * 2 ^ a * (j * 2 ^ b) * 2 ^ 0 = (i * j) * 2 ^ (a + b)"
    by (simp add: power_add)
  have 3: "f32_round ((i * j) * 2 ^ (a + b)) (2 ^ (a + b)) = f32_exact (i * j)"
    using i j assms
    by (intro f32_round_exact)
       (simp_all only: zero_less_power zero_less_numeral mult_eq_0_iff simp_thms)
  show ?thesis unfolding 1 2 3 ..
qed

lemma div_between:
  fixes n g E :: int
  assumes "g * E \<le> n" and "n < (g + 1) * E"
  shows "n div E = g"
proof -
  have E: "0 < E" using assms by (smt (verit) mult_less_cancel_right)
  have "n = E * g + (n - g * E)" by (simp add: mult.commute)
  moreover have "0 \<le> n - g * E" using assms(1) by simp
  moreover have "n - g * E < E" using assms(2) by (simp add: algebra_simps)
  ultimately show ?thesis by (rule int_div_pos_eq)
qed

lemma round_keeps_trunc:
  fixes d P E :: int
  assumes d: "0 < d" and P: "0 \<le> P" and E: "0 < E"
    and n: "n = (P * E) div d" and r: "r = (P * E) mod d"
    and up: "n' = n \<or> (n' = n + 1 \<and> d \<le> 2 * r \<and> d < 2 * E)"
  shows "n' div E = P div d"
proof -
  define g where "g = P div d"
  define X where "X = (g + 1) * E"
  have Pm: "P = g * d + P mod d" by (simp add: g_def)
  have mb: "0 \<le> P mod d" "P mod d < d" using d by simp_all
  have gd1: "(g + 1) * d = g * d + d" by (simp add: algebra_simps)
  have Pg: "g * d \<le> P" "P < (g + 1) * d"
    unfolding gd1 using Pm mb by linarith+
  have u: "n * d + r = P * E" using n r by (simp add: mult.commute)
  have rb: "0 \<le> r" "r < d" using d r by simp_all
  have lo: "g * E \<le> n"
  proof -
    have "(g * E) * d \<le> P * E"
      using mult_right_mono [OF Pg(1), of E] E by (simp add: mult.commute mult.left_commute)
    then have "((g * E) * d) div d \<le> (P * E) div d" using d by (intro zdiv_mono1) simp_all
    then show ?thesis using d n by simp
  qed
  have "P + 1 \<le> (g + 1) * d" using Pg(2) by simp
  then have "(P + 1) * E \<le> ((g + 1) * d) * E" using E by (intro mult_right_mono) simp_all
  then have hi0: "P * E + E \<le> X * d" by (simp add: X_def algebra_simps)
  have hi: "n < X"
  proof (rule ccontr)
    assume "\<not> n < X"
    then have "X * d \<le> n * d" using d by (intro mult_right_mono) simp_all
    then show False using hi0 u rb E by linarith
  qed
  show ?thesis
  proof (cases "n' = n")
    case True
    then show ?thesis using lo hi div_between [of g E n] by (simp add: X_def g_def)
  next
    case False
    then have n': "n' = n + 1" and r2: "d \<le> 2 * r" and dE: "d < 2 * E" using up by auto
    have "n + 1 < X"
    proof (rule ccontr)
      assume "\<not> n + 1 < X"
      then have "X * d \<le> (n + 1) * d" using d by (intro mult_right_mono) simp_all
      then have "X * d \<le> n * d + d" by (simp add: algebra_simps)
      then show False using hi0 u r2 dE by linarith
    qed
    moreover have "g * E \<le> n + 1" using lo by simp
    ultimately show ?thesis using div_between [of g E "n + 1"] n' by (simp add: X_def g_def)
  qed
qed


lemma pow2_nat_add:
  "0 \<le> x \<Longrightarrow> 0 \<le> y \<Longrightarrow> (2::int) ^ nat x * 2 ^ nat y = 2 ^ nat (x + y)"
  by (simp add: nat_add_distrib power_add)

lemma f32_round_trunc:
  assumes d: "0 < d" "d < 2 ^ 24" and p: "p \<noteq> 0" "\<bar>p\<bar> < 2 ^ 24"
  shows "f32_trunc (f32_round (p * 2 ^ c) (d * 2 ^ c)) = sgn p * (\<bar>p\<bar> div d)"
proof -
  define P where "P = \<bar>p\<bar>"
  define a where "a = P * 2 ^ c"
  define q where "q = d * 2 ^ c"
  have P: "0 < P" "P < 2 ^ 24" using p by (simp_all add: P_def)
  have a: "0 < a" and q: "0 < q" using P(1) d(1) by (simp_all add: a_def q_def)
  have ab: "\<bar>p * 2 ^ c\<bar> = a" by (simp add: a_def P_def abs_mult)
  have ne: "p * 2 ^ c \<noteq> 0" using p(1) by simp
  define bP where "bP = bitlen P"
  define bd where "bd = bitlen d"
  have ba: "bitlen a = bP + int c" unfolding a_def bP_def using P(1) by simp
  have bq: "bitlen q = bd + int c" unfolding q_def bd_def using d(1) by simp
  have bPr: "1 \<le> bP" "bP \<le> 24"
    using bitlen_abs_range [OF p] by (simp_all add: bP_def P_def)
  have bdr: "1 \<le> bd"
    unfolding bd_def using d(1) bitlen_eq_zero_iff [of d] bitlen_nonneg [of d] by linarith
  have Pb: "2 ^ nat (bP - 1) \<le> P" unfolding bP_def using bitlen_bounds [OF P(1)] by simp
  have db: "d < 2 ^ nat bd" unfolding bd_def using bitlen_bounds [OF d(1)] by simp
  define dd where "dd = bitlen a - bitlen q"
  have dd: "dd = bP - bd" by (simp add: dd_def ba bq)
  define e where "e = (if q * 2 ^ nat dd \<le> a * 2 ^ nat (- dd) then dd else dd - 1)"
  have e23: "e \<le> 23" using dd bPr bdr by (simp add: e_def)
  have low_dP: "d * 2 ^ nat e \<le> P * 2 ^ nat (- e)"
  proof (cases "q * 2 ^ nat dd \<le> a * 2 ^ nat (- dd)")
    case True
    then have "(d * 2 ^ nat dd) * 2 ^ c \<le> (P * 2 ^ nat (- dd)) * 2 ^ c"
      by (simp add: a_def q_def mult.commute mult.left_commute)
    then have "d * 2 ^ nat dd \<le> P * 2 ^ nat (- dd)" by simp
    then show ?thesis using True by (simp add: e_def)
  next
    case False
    then have e: "e = dd - 1" by (simp add: e_def)
    show ?thesis
    proof (cases "1 \<le> dd")
      case True
      have "d * 2 ^ nat (dd - 1) \<le> 2 ^ nat bd * 2 ^ nat (dd - 1)"
        using db by (intro mult_right_mono) simp_all
      also have "\<dots> = 2 ^ nat (bP - 1)"
        using True bdr dd pow2_nat_add [of bd "dd - 1"] by simp
      also have "\<dots> \<le> P" by (rule Pb)
      finally show ?thesis using True e by simp
    next
      case False
      have "d \<le> 2 ^ nat bd" using db by simp
      also have "\<dots> = 2 ^ nat (bP - 1) * 2 ^ nat (1 - dd)"
        using False bPr dd pow2_nat_add [of "bP - 1" "1 - dd"] by simp
      also have "\<dots> \<le> P * 2 ^ nat (1 - dd)"
        using Pb by (intro mult_right_mono) simp_all
      finally show ?thesis using False e by simp
    qed
  qed
  define s where "s = 23 - e"
  have s0: "0 \<le> s" using e23 by (simp add: s_def)
  define E where "E = (2::int) ^ nat s"
  have E: "0 < E" by (simp add: E_def)
  have dE: "d < 2 * E"
  proof (rule ccontr)
    assume "\<not> d < 2 * E"
    then have big: "2 * E \<le> d" by simp
    show False
    proof (cases "0 \<le> e")
      case True
      have "(2::int) ^ 24 = 2 ^ nat (s + 1 + e)" using True by (simp add: s_def)
      also have "\<dots> = (2 * E) * 2 ^ nat e"
        using True s0 pow2_nat_add [of "s + 1" e] pow2_nat_add [of s 1]
        by (simp add: E_def mult.commute)
      also have "\<dots> \<le> d * 2 ^ nat e" using big by (intro mult_right_mono) simp_all
      also have "\<dots> \<le> P" using low_dP True by simp
      finally show False using P(2) by simp
    next
      case False
      have "(2::int) ^ 24 * 2 ^ nat (- e) = 2 ^ nat (s + 1)"
        using False pow2_nat_add [of 24 "- e"] by (simp add: s_def)
      also have "\<dots> = 2 * E"
        using s0 pow2_nat_add [of s 1] by (simp add: E_def mult.commute)
      also have "\<dots> \<le> d" by (rule big)
      also have "\<dots> \<le> P * 2 ^ nat (- e)" using low_dP False by simp
      finally have "(2::int) ^ 24 \<le> P" by simp
      then show False using P(2) by simp
    qed
  qed
  define n where "n = (P * E) div d"
  define r where "r = (P * E) mod d"
  have den: "q * 2 ^ nat (- s) = q" using s0 by simp
  have num: "a * 2 ^ nat s = 2 ^ c * (P * E)" by (simp add: a_def E_def)
  have q2: "q = 2 ^ c * d" by (simp add: q_def)
  have "(a * 2 ^ nat s) div (q * 2 ^ nat (- s)) = (2 ^ c * (P * E)) div (2 ^ c * d)"
    by (simp only: den num) (simp only: q2)
  then have n2: "(a * 2 ^ nat s) div (q * 2 ^ nat (- s)) = n"
    by (simp add: n_def)
  have "(a * 2 ^ nat s) mod (q * 2 ^ nat (- s)) = (2 ^ c * (P * E)) mod (2 ^ c * d)"
    by (simp only: den num) (simp only: q2)
  then have r2: "(a * 2 ^ nat s) mod (q * 2 ^ nat (- s)) = 2 ^ c * r"
    by (simp add: r_def)
  define n' where
    "n' = (if 2 * (2 ^ c * r) > q \<or> (2 * (2 ^ c * r) = q \<and> odd n) then n + 1 else n)"
  have unf0: "f32_round (p * 2 ^ c) q =
      (sgn (p * 2 ^ c) *
         (if 2 * ((a * 2 ^ nat s) mod (q * 2 ^ nat (- s))) > q * 2 ^ nat (- s)
             \<or> (2 * ((a * 2 ^ nat s) mod (q * 2 ^ nat (- s))) = q * 2 ^ nat (- s)
                \<and> odd ((a * 2 ^ nat s) div (q * 2 ^ nat (- s))))
          then (a * 2 ^ nat s) div (q * 2 ^ nat (- s)) + 1
          else (a * 2 ^ nat s) div (q * 2 ^ nat (- s))),
       - s)"
    by (simp only: f32_round_def Let_def ne if_False ab s_def e_def dd_def)
  have unf: "f32_round (p * 2 ^ c) (d * 2 ^ c) = (sgn (p * 2 ^ c) * n', - s)"
    unfolding q_def [symmetric] unf0 n2 r2 unfolding den n'_def ..
  have up: "n' = n \<or> (n' = n + 1 \<and> d \<le> 2 * r \<and> d < 2 * E)"
  proof (cases "2 * (2 ^ c * r) > q \<or> (2 * (2 ^ c * r) = q \<and> odd n)")
    case True
    then have "2 ^ c * d \<le> 2 ^ c * (2 * r)" by (auto simp: q2)
    then have "d \<le> 2 * r" by simp
    moreover have "n' = n + 1" unfolding n'_def using True by (rule if_P)
    ultimately show ?thesis using dE by simp
  next
    case False
    have "n' = n" unfolding n'_def using False by (rule if_not_P)
    then show ?thesis by simp
  qed
  have key: "n' div E = P div d"
    using d(1) _ E n_def r_def up by (rule round_keeps_trunc) (simp add: P_def)
  have n'0: "0 \<le> n'"
  proof -
    have "0 \<le> n" unfolding n_def using P(1) E d(1) by (intro pos_imp_zdiv_nonneg_iff [THEN iffD2]) simp_all
    then show ?thesis using up by auto
  qed
  have sg: "sgn (p * 2 ^ c) = sgn p" by (simp add: sgn_mult)
  have "f32_trunc (sgn p * n', - s) = sgn p * (n' div E)"
  proof (cases "s = 0")
    case True
    then show ?thesis by (simp add: f32_trunc_def E_def)
  next
    case False
    then have "\<not> 0 \<le> - s" using s0 by simp
    moreover have "sgn (sgn p * n') * (\<bar>sgn p * n'\<bar> div 2 ^ nat s) = sgn p * (n' div 2 ^ nat s)"
      using n'0 p(1) by (cases "n' = 0") (simp_all add: sgn_mult abs_mult)
    ultimately show ?thesis by (simp add: f32_trunc_def E_def)
  qed
  then show ?thesis unfolding unf sg key P_def .
qed

lemma sdiv_pos:
  fixes p d :: int
  assumes "0 < d"
  shows "p sdiv d = sgn p * (\<bar>p\<bar> div d)"
  using assms by (simp add: signed_divide_int_def)

lemma f32_div_trunc:
  assumes "0 < d" and "d < 2 ^ 24" and "\<bar>p\<bar> < 2 ^ 24"
  shows "f32_trunc (f32_div (f32_exact p) (f32_exact d)) = p sdiv d"
proof (cases "p = 0")
  case True
  then show ?thesis
    by (simp add: f32_div_def Let_def f32_trunc_def)
next
  case False
  have d0: "d \<noteq> 0" and ds: "\<bar>d\<bar> < 2 ^ 24" using assms(1,2) by simp_all
  define a where "a = nat (24 - bitlen \<bar>p\<bar>)"
  define b where "b = nat (24 - bitlen \<bar>d\<bar>)"
  note pp = f32_exact_parts [OF False assms(3), folded a_def]
  note pd = f32_exact_parts [OF d0 ds, folded b_def]
  define c where "c = max a b"
  have e: "a + nat (- int a - - int b) = c" "b + nat (- (- int a - - int b)) = c"
    unfolding c_def max_def by auto
  have sg: "sgn (d * 2 ^ b) = 1" "\<bar>d * 2 ^ b\<bar> = d * 2 ^ b"
    using assms(1) by (simp_all add: sgn_mult abs_mult)
  have 1: "f32_div (f32_exact p) (f32_exact d)
          = f32_round (p * 2 ^ a * 1 * 2 ^ nat (- int a - - int b))
                      (d * 2 ^ b * 2 ^ nat (- (- int a - - int b)))"
    by (simp only: f32_div_def Let_def pp pd sg)
  have 2: "p * 2 ^ a * 1 * 2 ^ nat (- int a - - int b) = p * 2 ^ c"
    unfolding e(1) [symmetric] by (simp add: power_add)
  have 3: "d * 2 ^ b * 2 ^ nat (- (- int a - - int b)) = d * 2 ^ c"
    unfolding e(2) [symmetric] by (simp add: power_add)
  show ?thesis
    unfolding 1 2 3 sdiv_pos [OF assms(1)]
    using assms(1,2) False assms(3) by (rule f32_round_trunc)
qed

lemma word_of_int_add_sint:
  "(word_of_int (x + sint (word_of_int y :: 16 word)) :: 16 word) = word_of_int (x + y)"
  by simp

lemma sint16_range: "- 32768 \<le> sint (w :: 16 word)" "sint (w :: 16 word) \<le> 32767"
  using sint_ge [of w] sint_lt [of w] by simp_all

lemma d_temp_small:
  "\<bar>sint (v :: 16 word) - sint (w :: 16 word)\<bar> < 2 ^ 24"
proof -
  have "\<bar>sint v - sint w\<bar> \<le> 65535"
    using sint16_range [of v] sint16_range [of w] by linarith
  also have "(65535::int) < 2 ^ 24" by simp
  finally show ?thesis .
qed

lemma interpolate_uptime: "uptime (interpolate a b t) = t"
  by (simp add: interpolate_def Let_def)

lemma interpolate_equal:
  assumes "uptime a = uptime b"
  shows "interpolate a b t =
           \<lparr>temperature = word_of_int ((sint (temperature a) + sint (temperature b)) sdiv 2),
            uptime = t\<rparr>"
    and "sint (temperature (interpolate a b t))
           = (sint (temperature a) + sint (temperature b)) sdiv 2"
proof -
  show eq: "interpolate a b t =
           \<lparr>temperature = word_of_int ((sint (temperature a) + sint (temperature b)) sdiv 2),
            uptime = t\<rparr>"
    using assms by (simp add: interpolate_def)
  let ?m = "(sint (temperature a) + sint (temperature b)) sdiv 2"
  have "- 32768 \<le> ?m \<and> ?m \<le> 32767"
    using sint16_range [of "temperature a"] sint16_range [of "temperature b"]
    by (auto simp: signed_divide_int_def sgn_if) 
  then have "signed_take_bit 15 ?m = ?m"
    by (intro signed_take_bit_int_eq_self) simp_all
  then show "sint (temperature (interpolate a b t)) = ?m"
    unfolding eq by (simp add: signed_of_int)
qed

lemma interpolate_forward:
  assumes lt: "uptime a < uptime b"
    and dv: "dv = sint (temperature b) - sint (temperature a)"
    and dt: "dt = uint (t - uptime a)" and d: "d = uint (uptime b - uptime a)"
    and small: "\<bar>dv * dt\<bar> < 2 ^ 24" "dt < 2 ^ 24" "d < 2 ^ 24"
  shows "interpolate a b t =
           \<lparr>temperature = word_of_int (sint (temperature a) + (dv * dt) sdiv d), uptime = t\<rparr>"
proof -
  have ne: "uptime a \<noteq> uptime b" using lt by simp
  have "uptime b - uptime a \<noteq> 0" using ne by simp
  then have dpos: "0 < d" unfolding d using uint_0_iff [of "uptime b - uptime a"]
      uint_ge_0 [of "uptime b - uptime a"] by linarith
  have dt0: "0 \<le> dt" unfolding dt by simp
  then have dts: "\<bar>dt\<bar> < 2 ^ 24" using small(2) by simp
  have ds: "\<bar>d\<bar> < 2 ^ 24" using dpos small(3) by simp
  have dvs: "\<bar>dv\<bar> < 2 ^ 24" unfolding dv by (rule d_temp_small)
  have "f32_trunc (f32_div (f32_mul (f32_of_int dv) (f32_of_int dt)) (f32_of_int d))
          = (dv * dt) sdiv d"
    unfolding f32_of_int_exact [OF dvs] f32_of_int_exact [OF dts] f32_of_int_exact [OF ds]
      f32_mul_exact [OF small(1)]
    using dpos small(3) small(1) by (rule f32_div_trunc)
  then have "f32_to_int16 (f32_div (f32_mul (f32_of_int dv) (f32_of_int dt)) (f32_of_int d))
          = word_of_int ((dv * dt) sdiv d)"
    by (simp only: f32_to_int16_def)
  then show ?thesis
    using lt ne
    by (simp add: interpolate_def Let_def dv [symmetric] dt [symmetric] d [symmetric]
        word_of_int_add_sint del: of_int_add)
qed

section \<open>Properties of the interpolation\<close>

lemma sdiv_double:
  fixes m k :: int
  assumes "0 < k"
  shows "(2 * m * k) sdiv (2 * k) = m"
proof -
  have "\<bar>2 * m * k\<bar> div (2 * k) = \<bar>m\<bar>"
    using assms by (simp add: abs_mult)
  moreover have "sgn (2 * m * k) = sgn m" using assms by (simp add: sgn_mult)
  ultimately show "(2 * m * k) sdiv (2 * k) = m"
    using assms by (simp add: signed_divide_int_def sgn_mult mult_sgn_abs)
qed

lemma sdiv_two:
  fixes m :: int
  shows "(2 * m) sdiv 2 = m"
proof -
  have "\<bar>2 * m\<bar> div 2 = \<bar>m\<bar>" by (simp add: abs_mult)
  then show "(2 * m) sdiv 2 = m"
    by (simp add: signed_divide_int_def sgn_mult mult_sgn_abs)
qed

lemma midpoint_offset:
  fixes x y :: "32 word"
  assumes le: "x \<le> y" and fit: "unat x + unat y < 2 ^ 32"
  shows "uint ((x + y) div 2 - x) = uint (y - x) div 2"
proof -
  have xy: "unat x \<le> unat y" using le by (simp only: word_le_nat_alt)
  have "unat x + unat y < 2 ^ LENGTH(32)" using fit by simp
  then have s: "unat (x + y) = unat x + unat y"
    by (rule unat_add_lem [THEN iffD1])
  have "unat ((x + y) div 2) = unat (x + y) div unat (2 :: 32 word)" by (rule unat_div)
  then have t: "unat ((x + y) div 2) = (unat x + unat y) div 2"
    unfolding s by simp
  have "unat x \<le> (unat x + unat y) div 2" using xy by arith
  then have xt: "x \<le> (x + y) div 2" unfolding word_le_nat_alt t .
  have "unat ((x + y) div 2 - x) = unat ((x + y) div 2) - unat x"
    using xt by (rule unat_sub)
  also have "\<dots> = (unat x + unat y) div 2 - unat x" unfolding t ..
  also have "\<dots> = (unat y - unat x) div 2" using xy by arith
  also have "unat y - unat x = unat (y - x)" using le by (rule unat_sub [symmetric])
  finally have "unat ((x + y) div 2 - x) = unat (y - x) div 2" .
  then show ?thesis unfolding uint_nat by (simp only: zdiv_int of_nat_numeral)
qed

lemma interpolate_midpoint:
  assumes lt: "uptime a < uptime b"
    and fit: "unat (uptime a) + unat (uptime b) < 2 ^ 32"
    and dv: "dv = sint (temperature b) - sint (temperature a)"
    and d: "d = uint (uptime b - uptime a)"
    and ev: "even d" "even dv"
    and small: "\<bar>dv * (d div 2)\<bar> < 2 ^ 24" "d < 2 ^ 24"
  shows "interpolate a b ((uptime a + uptime b) div 2) =
           \<lparr>temperature = word_of_int ((sint (temperature a) + sint (temperature b)) sdiv 2),
            uptime = (uptime a + uptime b) div 2\<rparr>"
proof -
  let ?t = "(uptime a + uptime b) div 2"
  have le: "uptime a \<le> uptime b" using lt by simp
  have dt: "d div 2 = uint (?t - uptime a)"
    unfolding d using midpoint_offset [OF le fit] by simp
  have "uptime b - uptime a \<noteq> 0" using lt by simp
  then have dpos: "0 < d" unfolding d using uint_0_iff [of "uptime b - uptime a"]
      uint_ge_0 [of "uptime b - uptime a"] by linarith
  obtain k where k: "d = 2 * k" using ev(1) by (auto elim: evenE)
  obtain m where m: "dv = 2 * m" using ev(2) by (auto elim: evenE)
  have kpos: "0 < k" using dpos k by simp
  have "d div 2 \<le> d" using dpos by simp
  then have s2: "d div 2 < 2 ^ 24" using small(2) by (rule le_less_trans)
  have run: "interpolate a b ?t =
           \<lparr>temperature = word_of_int (sint (temperature a) + (dv * (d div 2)) sdiv d),
            uptime = ?t\<rparr>"
    using lt dv dt d small(1) s2 small(2) by (rule interpolate_forward)
  have q: "(dv * (d div 2)) sdiv d = m"
    using sdiv_double [OF kpos, of m] by (simp add: k m)
  have "sint (temperature a) + sint (temperature b) = 2 * (sint (temperature a) + m)"
    using dv m by simp
  then have mean: "(sint (temperature a) + sint (temperature b)) sdiv 2 = sint (temperature a) + m"
    using sdiv_two [of "sint (temperature a) + m"] by (simp only:)
  show ?thesis unfolding run q mean ..
qed

text \<open>
  C3, as amended. The result of \<^verbatim>\<open>interpolate\<close> always has the requested timestamp. If the
  two timestamps are equal, its value is the mean of the two values, truncated towards
  zero. If the first sample is the earlier one, and the product of the value
  difference and the offset of the target, that offset and the time difference are all
  below \<open>2 ^ 24\<close> in magnitude (so that \<^verbatim>\<open>float\<close> holds the product exactly), its value is the
  earlier value plus \<open>delta_value * delta_to_target / delta_time\<close> truncated towards zero,
  as an \<^verbatim>\<open>int16_t\<close>. At the midpoint of the timestamps this is the truncated mean of the two
  values when the sum of the timestamps does not overflow and the time difference and
  the value difference are even. Nothing is stated for a first sample that is the later
  one.
\<close>

theorem interpolate_by_design:
  assumes "dv = sint (temperature b) - sint (temperature a)"
    and "dt = uint (t - uptime a)" and "d = uint (uptime b - uptime a)"
  shows "uptime (interpolate a b t) = t
       \<and> (uptime a = uptime b \<longrightarrow>
            sint (temperature (interpolate a b t))
              = (sint (temperature a) + sint (temperature b)) sdiv 2)
       \<and> (uptime a < uptime b \<and> \<bar>dv * dt\<bar> < 2 ^ 24 \<and> dt < 2 ^ 24 \<and> d < 2 ^ 24 \<longrightarrow>
            temperature (interpolate a b t)
              = word_of_int (sint (temperature a) + (dv * dt) sdiv d))
       \<and> (uptime a < uptime b \<and> unat (uptime a) + unat (uptime b) < 2 ^ 32
            \<and> even d \<and> even dv \<and> \<bar>dv * (d div 2)\<bar> < 2 ^ 24 \<and> d < 2 ^ 24 \<longrightarrow>
            interpolate a b ((uptime a + uptime b) div 2)
              = \<lparr>temperature =
                   word_of_int ((sint (temperature a) + sint (temperature b)) sdiv 2),
                 uptime = (uptime a + uptime b) div 2\<rparr>)"
proof (intro conjI impI)
  show "uptime (interpolate a b t) = t" by (rule interpolate_uptime)
next
  assume "uptime a = uptime b"
  then show "sint (temperature (interpolate a b t))
              = (sint (temperature a) + sint (temperature b)) sdiv 2"
    by (rule interpolate_equal(2))
next
  assume h: "uptime a < uptime b \<and> \<bar>dv * dt\<bar> < 2 ^ 24 \<and> dt < 2 ^ 24 \<and> d < 2 ^ 24"
  have "interpolate a b t =
           \<lparr>temperature = word_of_int (sint (temperature a) + (dv * dt) sdiv d), uptime = t\<rparr>"
    using h assms by (intro interpolate_forward) blast+
  then show "temperature (interpolate a b t)
              = word_of_int (sint (temperature a) + (dv * dt) sdiv d)"
    by simp
next
  assume h: "uptime a < uptime b \<and> unat (uptime a) + unat (uptime b) < 2 ^ 32
            \<and> even d \<and> even dv \<and> \<bar>dv * (d div 2)\<bar> < 2 ^ 24 \<and> d < 2 ^ 24"
  show "interpolate a b ((uptime a + uptime b) div 2)
              = \<lparr>temperature =
                   word_of_int ((sint (temperature a) + sint (temperature b)) sdiv 2),
                 uptime = (uptime a + uptime b) div 2\<rparr>"
    using h assms by (intro interpolate_midpoint) blast+
qed

theorem interpolate_by_design_witness:
  "uptime (interpolate \<lparr>temperature = 0, uptime = 10\<rparr> \<lparr>temperature = 100, uptime = 20\<rparr> 13) = 13
   \<and> temperature (interpolate \<lparr>temperature = 0, uptime = 10\<rparr> \<lparr>temperature = 100, uptime = 20\<rparr> 13)
       = 30
   \<and> interpolate \<lparr>temperature = 0, uptime = 10\<rparr> \<lparr>temperature = 100, uptime = 20\<rparr>
         ((10 + 20) div 2) = \<lparr>temperature = 50, uptime = 15\<rparr>
   \<and> sint (temperature (interpolate \<lparr>temperature = - 7, uptime = 5\<rparr>
         \<lparr>temperature = 2, uptime = 5\<rparr> 99)) = - 2"
proof -
  let ?a = "\<lparr>temperature = 0 :: 16 word, uptime = 10 :: 32 word\<rparr>"
  let ?b = "\<lparr>temperature = 100 :: 16 word, uptime = 20 :: 32 word\<rparr>"
  let ?c = "\<lparr>temperature = - 7 :: 16 word, uptime = 5 :: 32 word\<rparr>"
  let ?d = "\<lparr>temperature = 2 :: 16 word, uptime = 5 :: 32 word\<rparr>"
  have h: "(100::int) = sint (temperature ?b) - sint (temperature ?a)"
    "(3::int) = uint (13 - uptime ?a)" "(10::int) = uint (uptime ?b - uptime ?a)"
    by simp_all
  have k: "(9::int) = sint (temperature ?d) - sint (temperature ?c)"
    "(94::int) = uint (99 - uptime ?c)" "(0::int) = uint (uptime ?d - uptime ?c)"
    by simp_all
  note t1 = interpolate_by_design [OF h]
  note t2 = interpolate_by_design [OF k]
  have q: "(100 * 3 :: int) sdiv 10 = 30" "(- 7 + 2 :: int) sdiv 2 = - 2"
    "(0 + 100 :: int) sdiv 2 = 50"
    by (simp_all add: signed_divide_int_def)
  have 1: "uptime (interpolate ?a ?b 13) = 13" using t1 by (rule conjunct1)
  have 2: "temperature (interpolate ?a ?b 13) = 30"
    using t1 q(1) by simp
  have "interpolate ?a ?b ((uptime ?a + uptime ?b) div 2)
          = \<lparr>temperature = word_of_int ((sint (temperature ?a) + sint (temperature ?b)) sdiv 2),
             uptime = (uptime ?a + uptime ?b) div 2\<rparr>"
    using t1 by simp
  then have 3: "interpolate ?a ?b ((10 + 20) div 2) = \<lparr>temperature = 50, uptime = 15\<rparr>"
    using q(3) by simp
  have 4: "sint (temperature (interpolate ?c ?d 99)) = - 2"
    using t2 q(2) by simp
  show ?thesis using 1 2 3 4 by simp
qed

text \<open>
  The claim as stated fails at two inputs. With the earlier sample first and an odd
  time difference, the value at the midpoint is 33, not the mean 50. With the later
  sample first, \<^verbatim>\<open>d_temp\<close> is still \<^verbatim>\<open>t2->temperature - t1->temperature\<close>, the difference
  earlier minus later, and the value at the midpoint is \<open>-50\<close>, not 50.
\<close>

theorem interpolate_counterexample:
  "temperature (interpolate \<lparr>temperature = 0, uptime = 10\<rparr> \<lparr>temperature = 100, uptime = 13\<rparr>
       ((10 + 13) div 2)) = 33
   \<and> temperature (interpolate \<lparr>temperature = 0, uptime = 10\<rparr> \<lparr>temperature = 100, uptime = 13\<rparr>
       ((10 + 13) div 2))
       \<noteq> word_of_int ((sint (0 :: 16 word) + sint (100 :: 16 word)) sdiv 2)
   \<and> sint (temperature (interpolate \<lparr>temperature = 100, uptime = 20\<rparr>
       \<lparr>temperature = 0, uptime = 10\<rparr> ((20 + 10) div 2))) = - 50
   \<and> sint (temperature (interpolate \<lparr>temperature = 100, uptime = 20\<rparr>
       \<lparr>temperature = 0, uptime = 10\<rparr> ((20 + 10) div 2)))
       \<noteq> (sint (100 :: 16 word) + sint (0 :: 16 word)) sdiv 2"
  by code_simp

end
